theory Spec2Isabelle
  imports Complex_Main
begin

section \<open>Springs-and-struts layout: the Row and Column containers\<close>

text \<open>
  The development embeds \<^verbatim>\<open>src/out/Row.js\<close> and \<^verbatim>\<open>src/out/Column.js\<close>, twice.
  The first embedding reads JavaScript numbers as exact real numbers (\<^typ>\<open>real\<close>) and
  sees every child through the interface of the base class.  The second embedding, in the
  section after it, rounds every arithmetic result and lets a child be a Row or a Column.
  NaN and the infinities of IEEE doubles are outside both.  Objects of class SizeConfig live
  in an explicit store, because the code holds them by reference and writes to one of their
  fields.
\<close>

subsection \<open>Data model\<close>

text \<open>
  Modelled from the spec: the class SizeConfig (SizeConfig.js is not among the sources).  It is
  the triple (natural, min, max) of the data model; the code reads the fields
  \<^verbatim>\<open>nat\<close>, \<^verbatim>\<open>min\<close>, \<^verbatim>\<open>max\<close> and assigns \<^verbatim>\<open>nat\<close>.
\<close>

record SizeConfig =
  nat_c :: real
  min_c :: real
  max_c :: real

text \<open>
  Modelled from the spec: the invariant of a SizeConfig, all components non-negative and
  \<open>min \<le> natural \<le> max\<close>.
\<close>

definition wellformed :: "SizeConfig \<Rightarrow> bool" where
  "wellformed c \<longleftrightarrow> 0 \<le> min_c c \<and> min_c c \<le> nat_c c \<and> nat_c c \<le> max_c c"

type_synonym ref = nat

text \<open>
  The store of SizeConfig objects: \<open>cells\<close> gives the object at each reference, and the
  references below \<open>next_ref\<close> are the objects constructed so far.
\<close>

record store =
  cells :: "ref \<Rightarrow> SizeConfig"
  next_ref :: ref

text \<open>\<^verbatim>\<open>new SizeConfig(nat, min, max)\<close>: a fresh object.\<close>

definition new_SizeConfig :: "real \<Rightarrow> real \<Rightarrow> real \<Rightarrow> store \<Rightarrow> ref \<times> store" where
  "new_SizeConfig n mn mx st =
     (next_ref st,
      st\<lparr>cells := (cells st)(next_ref st := \<lparr>nat_c = n, min_c = mn, max_c = mx\<rparr>),
         next_ref := Suc (next_ref st)\<rparr>)"

text \<open>Modelled from the spec: \<^verbatim>\<open>SizeConfig.fixed(v)\<close> is the triple \<open>(v, v, v)\<close>.\<close>

definition SizeConfig_fixed :: "real \<Rightarrow> store \<Rightarrow> ref \<times> store" where
  "SizeConfig_fixed v st = new_SizeConfig v v v st"

text \<open>
  Modelled from the spec: the base class of every drawn object (DrawnObjectBase.js is not among
  the sources).  The containers read and assign a child's \<^verbatim>\<open>x\<close>, \<^verbatim>\<open>y\<close>,
  \<^verbatim>\<open>w\<close>, \<^verbatim>\<open>h\<close>, read its \<^verbatim>\<open>wConfig\<close> and \<^verbatim>\<open>hConfig\<close>, and test
  \<^verbatim>\<open>child instanceof Spring\<close>.  An assignment to a position or size stores the value.
  The calls of \<^verbatim>\<open>damageAll()\<close> only notify the driver of the tree and are not modelled.

  In this first embedding a child is seen through this interface only, so an assignment to
  its size leaves its size configurations alone.  A child that is itself a Row or a Column
  overrides the setter of its own primary-axis size, as \<open>Row_set_w\<close> and \<open>Column_set_h\<close>
  below show for the container; the second embedding has such children.
\<close>

record DrawnObject =
  obj_isSpring :: bool
  obj_x :: real
  obj_y :: real
  obj_w :: real
  obj_h :: real
  obj_wConfig :: ref
  obj_hConfig :: ref

text \<open>Row and Column extend Group, which owns the ordered list of children.\<close>

record Group = DrawnObject +
  children :: "DrawnObject list"

record Row = Group +
  hJustification :: string

record Column = Group +
  wJustification :: string

text \<open>The accessors \<^verbatim>\<open>child.wConfig\<close> and \<^verbatim>\<open>child.hConfig\<close>, read through the store.\<close>

definition wConfig :: "store \<Rightarrow> 'a DrawnObject_scheme \<Rightarrow> SizeConfig" where
  "wConfig st obj = cells st (obj_wConfig obj)"

definition hConfig :: "store \<Rightarrow> 'a DrawnObject_scheme \<Rightarrow> SizeConfig" where
  "hConfig st obj = cells st (obj_hConfig obj)"

text \<open>
  Modelled from the spec: the accessors \<^verbatim>\<open>naturalW\<close> and \<^verbatim>\<open>minW\<close> of the base
  class, the natural and the minimum width of the object's width configuration.
\<close>

definition naturalW :: "store \<Rightarrow> 'a DrawnObject_scheme \<Rightarrow> real" where
  "naturalW st obj = nat_c (wConfig st obj)"

definition minW :: "store \<Rightarrow> 'a DrawnObject_scheme \<Rightarrow> real" where
  "minW st obj = min_c (wConfig st obj)"

subsection \<open>Row\<close>

text \<open>The setter of \<^verbatim>\<open>w\<close> that Row overrides: a new width pins the width configuration.\<close>

definition Row_set_w :: "real \<Rightarrow> store \<times> Row \<Rightarrow> store \<times> Row" where
  "Row_set_w v s =
     (case s of (st, this) \<Rightarrow>
        if \<not> (v = obj_w this) then
          (case SizeConfig_fixed v st of (c, st') \<Rightarrow> (st', this\<lparr>obj_w := v, obj_wConfig := c\<rparr>))
        else (st, this))"

text \<open>The loop of \<^verbatim>\<open>Row._doLocalSizing\<close>, with its six running values.\<close>

fun Row_sizing_loop ::
  "store \<Rightarrow> DrawnObject list \<Rightarrow> real \<times> real \<times> real \<times> real \<times> real \<times> real \<Rightarrow>
     real \<times> real \<times> real \<times> real \<times> real \<times> real" where
  "Row_sizing_loop st [] acc = acc"
| "Row_sizing_loop st (child # rest) (minW', naturalW', maxW', minH, naturalH, maxH) =
     Row_sizing_loop st rest
       (minW' + min_c (wConfig st child),
        naturalW' + nat_c (wConfig st child),
        maxW' + max_c (wConfig st child),
        max minH (min_c (hConfig st child)),
        max naturalH (nat_c (hConfig st child)),
        max maxH (max_c (hConfig st child)))"

definition Row_doLocalSizing :: "store \<times> Row \<Rightarrow> store \<times> Row" where
  "Row_doLocalSizing s =
     (case s of (st, this) \<Rightarrow>
        (case Row_sizing_loop st (children this) (0, 0, 0, 0, 0, 0) of
           (minW', naturalW', maxW', minH, naturalH, maxH) \<Rightarrow>
             (case new_SizeConfig naturalH minH maxH st of (hc, st1) \<Rightarrow>
               (case new_SizeConfig naturalW' minW' maxW' st1 of (wc, st2) \<Rightarrow>
                  (st2, this\<lparr>obj_hConfig := hc, obj_wConfig := wc\<rparr>)))))"

text \<open>\<^verbatim>\<open>Row._measureChildren\<close>: the triple (natSum, availCompr, numSprings).\<close>

fun Row_measure_loop ::
  "store \<Rightarrow> DrawnObject list \<Rightarrow> real \<times> real \<times> nat \<Rightarrow> real \<times> real \<times> nat" where
  "Row_measure_loop st [] acc = acc"
| "Row_measure_loop st (child # rest) (natSum, availCompr, numSprings) =
     (if obj_isSpring child then Row_measure_loop st rest (natSum, availCompr, numSprings + 1)
      else
        (let compr = naturalW st child - minW st child
         in Row_measure_loop st rest (natSum + naturalW st child, availCompr + compr, numSprings)))"

definition Row_measureChildren :: "store \<Rightarrow> Row \<Rightarrow> real \<times> real \<times> nat" where
  "Row_measureChildren st this = Row_measure_loop st (children this) (0, 0, 0)"

text \<open>\<^verbatim>\<open>Row._expandChildSprings\<close>: every spring gets \<open>excess / numSprings\<close>.\<close>

definition Row_expandChildSprings :: "real \<Rightarrow> nat \<Rightarrow> Row \<Rightarrow> Row" where
  "Row_expandChildSprings excess numSprings this =
     (if numSprings = 0 then this
      else
        (let eachExcess = excess / real numSprings
         in this\<lparr>children :=
              map (\<lambda>child. if obj_isSpring child then child\<lparr>obj_w := eachExcess\<rparr> else child)
                (children this)\<rparr>))"

text \<open>
  \<^verbatim>\<open>Row._compressChildren\<close>: every child that is no spring gives up its fraction.  The
  caller never passes \<open>availCompr = 0\<close>; there the division of the source gives NaN or an
  infinity, which real numbers do not have, and nothing is proved about that case.
\<close>

definition Row_compressChildren :: "store \<Rightarrow> real \<Rightarrow> real \<Rightarrow> Row \<Rightarrow> Row" where
  "Row_compressChildren st shortfall availCompr this =
     this\<lparr>children :=
       map (\<lambda>child.
             if \<not> obj_isSpring child then
               (let compr = nat_c (wConfig st child) - min_c (wConfig st child);
                    fraction = compr / availCompr
                in child\<lparr>obj_w := max (min_c (wConfig st child))
                                     (nat_c (wConfig st child) - fraction * shortfall)\<rparr>)
             else child)
         (children this)\<rparr>"

text \<open>\<^verbatim>\<open>Row._adjustChildren\<close>.\<close>

definition Row_adjustChildren :: "store \<Rightarrow> Row \<Rightarrow> Row" where
  "Row_adjustChildren st this =
     (case Row_measureChildren st this of (natSum, availCompr, numSprings) \<Rightarrow>
        (let excess = obj_w this - natSum
         in if excess \<ge> 0 then Row_expandChildSprings excess numSprings this
            else
              (let this1 = this\<lparr>children :=
                             map (\<lambda>child. if obj_isSpring child then child\<lparr>obj_w := 0\<rparr> else child)
                               (children this)\<rparr>
               in if availCompr = 0 then this1
                  else
                    (let shortfall = - excess;
                         shortfall = min availCompr shortfall
                     in Row_compressChildren st shortfall availCompr this1))))"

text \<open>
  The first loop of \<^verbatim>\<open>Row._completeLocalLayout\<close>: every child takes its natural height, and
  \<open>hMax\<close> follows the tallest one.
\<close>

fun Row_heights_loop ::
  "store \<Rightarrow> DrawnObject list \<Rightarrow> real \<Rightarrow> DrawnObject list \<times> real" where
  "Row_heights_loop st [] hMax = ([], hMax)"
| "Row_heights_loop st (child # rest) hMax =
     (let child' = child\<lparr>obj_h := nat_c (hConfig st child)\<rparr>;
          hMax' = (if obj_h child' > hMax then obj_h child' else hMax)
      in (case Row_heights_loop st rest hMax' of (rest', m) \<Rightarrow> (child' # rest', m)))"

text \<open>The second loop: stack the children horizontally and justify them vertically.\<close>

fun Row_stack_loop :: "real \<Rightarrow> string \<Rightarrow> DrawnObject list \<Rightarrow> real \<Rightarrow> DrawnObject list" where
  "Row_stack_loop this_h just [] xpos = []"
| "Row_stack_loop this_h just (child # rest) xpos =
     (let child1 = child\<lparr>obj_x := xpos\<rparr>;
          xpos' = xpos + obj_w child1;
          child2 =
            (if just = ''top'' then child1\<lparr>obj_y := 0\<rparr>
             else if just = ''center'' then child1\<lparr>obj_y := this_h / 2 - obj_h child1 / 2\<rparr>
             else if just = ''bottom'' then child1\<lparr>obj_y := this_h - obj_h child1\<rparr>
             else child1\<lparr>obj_y := 0\<rparr>)
      in child2 # Row_stack_loop this_h just rest xpos')"

text \<open>
  \<^verbatim>\<open>Row._completeLocalLayout\<close>.  The statement \<^verbatim>\<open>this.h = this.hConfig.nat = hMax\<close>
  first writes the field \<^verbatim>\<open>nat\<close> of the object that \<^verbatim>\<open>this.hConfig\<close> refers to, then sets
  the height of the row (Row inherits the setter of \<^verbatim>\<open>h\<close>).
\<close>

definition Row_completeLocalLayout :: "store \<times> Row \<Rightarrow> store \<times> Row" where
  "Row_completeLocalLayout s =
     (case s of (st, this) \<Rightarrow>
        if length (children this) = 0 then (st, this)
        else
          (let this1 = Row_adjustChildren st this
           in (case Row_heights_loop st (children this1) 0 of (cs, hMax) \<Rightarrow>
                (let this2 = this1\<lparr>children := cs\<rparr>;
                     st' = st\<lparr>cells := (cells st)
                             (obj_hConfig this2 := (cells st (obj_hConfig this2))\<lparr>nat_c := hMax\<rparr>)\<rparr>;
                     this3 = this2\<lparr>obj_h := hMax\<rparr>
                 in (st', this3\<lparr>children :=
                            Row_stack_loop (obj_h this3) (hJustification this3) (children this3) 0\<rparr>)))))"

subsection \<open>Column\<close>

text \<open>The setter of \<^verbatim>\<open>h\<close> that Column overrides: a new height pins the height configuration.\<close>

definition Column_set_h :: "real \<Rightarrow> store \<times> Column \<Rightarrow> store \<times> Column" where
  "Column_set_h v s =
     (case s of (st, this) \<Rightarrow>
        if \<not> (v = obj_h this) then
          (case SizeConfig_fixed v st of (c, st') \<Rightarrow> (st', this\<lparr>obj_h := v, obj_hConfig := c\<rparr>))
        else (st, this))"

text \<open>The loop of \<^verbatim>\<open>Column._doLocalSizing\<close>: heights add up, widths take the maximum.\<close>

fun Column_sizing_loop ::
  "store \<Rightarrow> DrawnObject list \<Rightarrow> real \<times> real \<times> real \<times> real \<times> real \<times> real \<Rightarrow>
     real \<times> real \<times> real \<times> real \<times> real \<times> real" where
  "Column_sizing_loop st [] acc = acc"
| "Column_sizing_loop st (child # rest) (minW', naturalW', maxW', minH, naturalH, maxH) =
     Column_sizing_loop st rest
       (max minW' (min_c (wConfig st child)),
        max naturalW' (nat_c (wConfig st child)),
        max maxW' (max_c (wConfig st child)),
        minH + min_c (hConfig st child),
        naturalH + nat_c (hConfig st child),
        maxH + max_c (hConfig st child))"

text \<open>
  Column assigns through the accessors \<^verbatim>\<open>this.hConfig\<close> and \<^verbatim>\<open>this.wConfig\<close> of the
  base class; modelled from the spec, they store the reference to the new object.
\<close>

definition Column_doLocalSizing :: "store \<times> Column \<Rightarrow> store \<times> Column" where
  "Column_doLocalSizing s =
     (case s of (st, this) \<Rightarrow>
        (case Column_sizing_loop st (children this) (0, 0, 0, 0, 0, 0) of
           (minW', naturalW', maxW', minH, naturalH, maxH) \<Rightarrow>
             (case new_SizeConfig naturalH minH maxH st of (hc, st1) \<Rightarrow>
               (case new_SizeConfig naturalW' minW' maxW' st1 of (wc, st2) \<Rightarrow>
                  (st2, this\<lparr>obj_hConfig := hc, obj_wConfig := wc\<rparr>)))))"

text \<open>\<^verbatim>\<open>Column._measureChildren\<close>: the triple (natSum, availCompr, numSprings).\<close>

fun Column_measure_loop ::
  "store \<Rightarrow> DrawnObject list \<Rightarrow> real \<times> real \<times> nat \<Rightarrow> real \<times> real \<times> nat" where
  "Column_measure_loop st [] acc = acc"
| "Column_measure_loop st (child # rest) (natSum, availCompr, numSprings) =
     (if obj_isSpring child then Column_measure_loop st rest (natSum, availCompr, numSprings + 1)
      else
        (let compr = nat_c (hConfig st child) - min_c (hConfig st child)
         in Column_measure_loop st rest
              (natSum + nat_c (hConfig st child), availCompr + compr, numSprings)))"

definition Column_measureChildren :: "store \<Rightarrow> Column \<Rightarrow> real \<times> real \<times> nat" where
  "Column_measureChildren st this = Column_measure_loop st (children this) (0, 0, 0)"

text \<open>\<^verbatim>\<open>Column._expandChildSprings\<close>.\<close>

definition Column_expandChildSprings :: "real \<Rightarrow> nat \<Rightarrow> Column \<Rightarrow> Column" where
  "Column_expandChildSprings excess numSprings this =
     (if numSprings = 0 then this
      else
        (let eachExcess = excess / real numSprings
         in this\<lparr>children :=
              map (\<lambda>child. if obj_isSpring child then child\<lparr>obj_h := eachExcess\<rparr> else child)
                (children this)\<rparr>))"

text \<open>\<^verbatim>\<open>Column._compressChildren\<close>.\<close>

definition Column_compressChildren :: "store \<Rightarrow> real \<Rightarrow> real \<Rightarrow> Column \<Rightarrow> Column" where
  "Column_compressChildren st shortfall availCompr this =
     this\<lparr>children :=
       map (\<lambda>child.
             if \<not> obj_isSpring child then
               (let compr = nat_c (hConfig st child) - min_c (hConfig st child);
                    fraction = compr / availCompr
                in child\<lparr>obj_h := max (min_c (hConfig st child))
                                     (nat_c (hConfig st child) - fraction * shortfall)\<rparr>)
             else child)
         (children this)\<rparr>"

text \<open>\<^verbatim>\<open>Column._adjustChildren\<close>.\<close>

definition Column_adjustChildren :: "store \<Rightarrow> Column \<Rightarrow> Column" where
  "Column_adjustChildren st this =
     (case Column_measureChildren st this of (natSum, availCompr, numSprings) \<Rightarrow>
        (let excess = obj_h this - natSum
         in if excess \<ge> 0 then Column_expandChildSprings excess numSprings this
            else
              (let this1 = this\<lparr>children :=
                             map (\<lambda>child. if obj_isSpring child then child\<lparr>obj_h := 0\<rparr> else child)
                               (children this)\<rparr>
               in if availCompr = 0 then this1
                  else
                    (let shortfall = - excess;
                         shortfall = min availCompr shortfall
                     in Column_compressChildren st shortfall availCompr this1))))"

text \<open>
  The first loop of \<^verbatim>\<open>Column._completeLocalLayout\<close>: every child takes its natural width, and
  \<open>wMax\<close> follows the widest one.
\<close>

fun Column_widths_loop ::
  "store \<Rightarrow> DrawnObject list \<Rightarrow> real \<Rightarrow> DrawnObject list \<times> real" where
  "Column_widths_loop st [] wMax = ([], wMax)"
| "Column_widths_loop st (child # rest) wMax =
     (let child' = child\<lparr>obj_w := nat_c (wConfig st child)\<rparr>;
          wMax' = (if obj_w child' > wMax then obj_w child' else wMax)
      in (case Column_widths_loop st rest wMax' of (rest', m) \<Rightarrow> (child' # rest', m)))"

text \<open>The second loop: stack the children vertically and justify them horizontally.\<close>

fun Column_stack_loop :: "real \<Rightarrow> string \<Rightarrow> DrawnObject list \<Rightarrow> real \<Rightarrow> DrawnObject list" where
  "Column_stack_loop this_w just [] ypos = []"
| "Column_stack_loop this_w just (child # rest) ypos =
     (let child1 = child\<lparr>obj_y := ypos\<rparr>;
          ypos' = ypos + obj_h child1;
          child2 =
            (if just = ''left'' then child1\<lparr>obj_x := 0\<rparr>
             else if just = ''center'' then child1\<lparr>obj_x := this_w / 2 - obj_w child1 / 2\<rparr>
             else if just = ''right'' then child1\<lparr>obj_x := this_w - obj_w child1\<rparr>
             else child1\<lparr>obj_x := 0\<rparr>)
      in child2 # Column_stack_loop this_w just rest ypos')"

text \<open>
  \<^verbatim>\<open>Column._completeLocalLayout\<close>.  The statement \<^verbatim>\<open>this.w = this.wConfig.nat = wMax\<close>
  first writes the field \<^verbatim>\<open>nat\<close> of the object that \<^verbatim>\<open>this.wConfig\<close> refers to, then sets
  the width of the column (Column inherits the setter of \<^verbatim>\<open>w\<close>).
\<close>

definition Column_completeLocalLayout :: "store \<times> Column \<Rightarrow> store \<times> Column" where
  "Column_completeLocalLayout s =
     (case s of (st, this) \<Rightarrow>
        if length (children this) = 0 then (st, this)
        else
          (let this1 = Column_adjustChildren st this
           in (case Column_widths_loop st (children this1) 0 of (cs, wMax) \<Rightarrow>
                (let this2 = this1\<lparr>children := cs\<rparr>;
                     st' = st\<lparr>cells := (cells st)
                             (obj_wConfig this2 := (cells st (obj_wConfig this2))\<lparr>nat_c := wMax\<rparr>)\<rparr>;
                     this3 = this2\<lparr>obj_w := wMax\<rparr>
                 in (st', this3\<lparr>children :=
                            Column_stack_loop (obj_w this3) (wJustification this3) (children this3) 0\<rparr>)))))"

subsection \<open>Auxiliary notions for the proofs\<close>

text \<open>
  What \<^verbatim>\<open>_adjustChildren\<close> does to one child, given the width of the row and the measured
  triple.  The lemma \<open>Row_adjustChildren_eq\<close> below shows that the embedded method maps this
  function over the children.
\<close>

definition Row_adjusted_child ::
  "store \<Rightarrow> real \<Rightarrow> real \<times> real \<times> nat \<Rightarrow> DrawnObject \<Rightarrow> DrawnObject" where
  "Row_adjusted_child st this_w m child =
     (case m of (natSum, availCompr, numSprings) \<Rightarrow>
        if this_w - natSum \<ge> 0 then
          (if numSprings \<noteq> 0 \<and> obj_isSpring child
           then child\<lparr>obj_w := (this_w - natSum) / real numSprings\<rparr> else child)
        else if obj_isSpring child then child\<lparr>obj_w := 0\<rparr>
        else if availCompr = 0 then child
        else child\<lparr>obj_w := max (min_c (wConfig st child))
               (nat_c (wConfig st child) -
                  (nat_c (wConfig st child) - min_c (wConfig st child)) / availCompr *
                     min availCompr (- (this_w - natSum)))\<rparr>)"

definition Column_adjusted_child ::
  "store \<Rightarrow> real \<Rightarrow> real \<times> real \<times> nat \<Rightarrow> DrawnObject \<Rightarrow> DrawnObject" where
  "Column_adjusted_child st this_h m child =
     (case m of (natSum, availCompr, numSprings) \<Rightarrow>
        if this_h - natSum \<ge> 0 then
          (if numSprings \<noteq> 0 \<and> obj_isSpring child
           then child\<lparr>obj_h := (this_h - natSum) / real numSprings\<rparr> else child)
        else if obj_isSpring child then child\<lparr>obj_h := 0\<rparr>
        else if availCompr = 0 then child
        else child\<lparr>obj_h := max (min_c (hConfig st child))
               (nat_c (hConfig st child) -
                  (nat_c (hConfig st child) - min_c (hConfig st child)) / availCompr *
                     min availCompr (- (this_h - natSum)))\<rparr>)"

text \<open>
  One layout cycle of a container: the sizing step, then the placement step.
\<close>

definition Row_layout_pass :: "store \<times> Row \<Rightarrow> store \<times> Row" where
  "Row_layout_pass s = Row_completeLocalLayout (Row_doLocalSizing s)"

definition Column_layout_pass :: "store \<times> Column \<Rightarrow> store \<times> Column" where
  "Column_layout_pass s = Column_completeLocalLayout (Column_doLocalSizing s)"

text \<open>
  What can be observed of an object: whether it is a spring, its position, its size, and the
  values of its two size configurations (the references themselves are not observed, a new
  object with the same components is the same configuration).
\<close>

definition observe_obj ::
  "store \<Rightarrow> 'a DrawnObject_scheme \<Rightarrow>
     bool \<times> real \<times> real \<times> real \<times> real \<times> SizeConfig \<times> SizeConfig" where
  "observe_obj st obj =
     (obj_isSpring obj, obj_x obj, obj_y obj, obj_w obj, obj_h obj, wConfig st obj, hConfig st obj)"

definition Row_observe ::
  "store \<times> Row \<Rightarrow>
     (bool \<times> real \<times> real \<times> real \<times> real \<times> SizeConfig \<times> SizeConfig) \<times> string \<times>
     (bool \<times> real \<times> real \<times> real \<times> real \<times> SizeConfig \<times> SizeConfig) list" where
  "Row_observe s =
     (case s of (st, this) \<Rightarrow>
        (observe_obj st this, hJustification this, map (observe_obj st) (children this)))"

definition Column_observe ::
  "store \<times> Column \<Rightarrow>
     (bool \<times> real \<times> real \<times> real \<times> real \<times> SizeConfig \<times> SizeConfig) \<times> string \<times>
     (bool \<times> real \<times> real \<times> real \<times> real \<times> SizeConfig \<times> SizeConfig) list" where
  "Column_observe s =
     (case s of (st, this) \<Rightarrow>
        (observe_obj st this, wJustification this, map (observe_obj st) (children this)))"

text \<open>
  The size configurations of the children are objects that exist in the store: their
  references are below \<open>next_ref\<close>, so that a newly constructed object is none of them.
\<close>

definition allocated :: "store \<Rightarrow> DrawnObject list \<Rightarrow> bool" where
  "allocated st cs \<longleftrightarrow> (\<forall>c\<in>set cs. obj_wConfig c < next_ref st \<and> obj_hConfig c < next_ref st)"

subsection \<open>Example layouts\<close>

text \<open>
  A store with the size configurations of two struts, a spring, two compressible boxes and a
  container: a fixed primary axis of 100 and an elastic cross axis of natural size 13.
\<close>

definition example_store :: store where
  "example_store =
     \<lparr>cells = (\<lambda>_. \<lparr>nat_c = 0, min_c = 0, max_c = 0\<rparr>)
        (0 := \<lparr>nat_c = 20, min_c = 20, max_c = 20\<rparr>,
         1 := \<lparr>nat_c = 7, min_c = 7, max_c = 7\<rparr>,
         2 := \<lparr>nat_c = 0, min_c = 0, max_c = 1000\<rparr>,
         3 := \<lparr>nat_c = 0, min_c = 0, max_c = 0\<rparr>,
         4 := \<lparr>nat_c = 20, min_c = 20, max_c = 20\<rparr>,
         5 := \<lparr>nat_c = 5, min_c = 5, max_c = 5\<rparr>,
         6 := \<lparr>nat_c = 8, min_c = 2, max_c = 8\<rparr>,
         7 := \<lparr>nat_c = 3, min_c = 3, max_c = 3\<rparr>,
         8 := \<lparr>nat_c = 8, min_c = 4, max_c = 8\<rparr>,
         9 := \<lparr>nat_c = 6, min_c = 6, max_c = 6\<rparr>,
         10 := \<lparr>nat_c = 100, min_c = 100, max_c = 100\<rparr>,
         11 := \<lparr>nat_c = 13, min_c = 0, max_c = 1000\<rparr>),
      next_ref = 12\<rparr>"

text \<open>
  A row of width 100 with a strut of 20, a spring (left at size 33 by some earlier layout) and
  a strut of 20, centred vertically.
\<close>

definition spring_row :: Row where
  "spring_row =
     \<lparr>obj_isSpring = False, obj_x = 0, obj_y = 0, obj_w = 100, obj_h = 13,
      obj_wConfig = 10, obj_hConfig = 11,
      children =
        [\<lparr>obj_isSpring = False, obj_x = 0, obj_y = 0, obj_w = 20, obj_h = 7,
          obj_wConfig = 0, obj_hConfig = 1\<rparr>,
         \<lparr>obj_isSpring = True, obj_x = 0, obj_y = 0, obj_w = 33, obj_h = 0,
          obj_wConfig = 2, obj_hConfig = 3\<rparr>,
         \<lparr>obj_isSpring = False, obj_x = 0, obj_y = 0, obj_w = 20, obj_h = 5,
          obj_wConfig = 4, obj_hConfig = 5\<rparr>],
      hJustification = ''center''\<rparr>"

text \<open>
  A row of width 10 with two boxes of natural width 8 and minimum widths 2 and 4, justified
  to the bottom.
\<close>

definition tight_row :: Row where
  "tight_row =
     \<lparr>obj_isSpring = False, obj_x = 0, obj_y = 0, obj_w = 10, obj_h = 13,
      obj_wConfig = 10, obj_hConfig = 11,
      children =
        [\<lparr>obj_isSpring = False, obj_x = 0, obj_y = 0, obj_w = 8, obj_h = 3,
          obj_wConfig = 6, obj_hConfig = 7\<rparr>,
         \<lparr>obj_isSpring = False, obj_x = 0, obj_y = 0, obj_w = 8, obj_h = 6,
          obj_wConfig = 8, obj_hConfig = 9\<rparr>],
      hJustification = ''bottom''\<rparr>"

text \<open>A row of width 30 with a spring between the two struts: nothing can be compressed.\<close>

definition stuck_row :: Row where
  "stuck_row = spring_row\<lparr>obj_w := 30\<rparr>"

text \<open>The same three layouts as columns: heights are primary, widths are the cross axis.\<close>

definition spring_column :: Column where
  "spring_column =
     \<lparr>obj_isSpring = False, obj_x = 0, obj_y = 0, obj_w = 13, obj_h = 100,
      obj_wConfig = 11, obj_hConfig = 10,
      children =
        [\<lparr>obj_isSpring = False, obj_x = 0, obj_y = 0, obj_w = 7, obj_h = 20,
          obj_wConfig = 1, obj_hConfig = 0\<rparr>,
         \<lparr>obj_isSpring = True, obj_x = 0, obj_y = 0, obj_w = 0, obj_h = 33,
          obj_wConfig = 3, obj_hConfig = 2\<rparr>,
         \<lparr>obj_isSpring = False, obj_x = 0, obj_y = 0, obj_w = 5, obj_h = 20,
          obj_wConfig = 5, obj_hConfig = 4\<rparr>],
      wJustification = ''center''\<rparr>"

definition tight_column :: Column where
  "tight_column =
     \<lparr>obj_isSpring = False, obj_x = 0, obj_y = 0, obj_w = 13, obj_h = 10,
      obj_wConfig = 11, obj_hConfig = 10,
      children =
        [\<lparr>obj_isSpring = False, obj_x = 0, obj_y = 0, obj_w = 3, obj_h = 8,
          obj_wConfig = 7, obj_hConfig = 6\<rparr>,
         \<lparr>obj_isSpring = False, obj_x = 0, obj_y = 0, obj_w = 6, obj_h = 8,
          obj_wConfig = 9, obj_hConfig = 8\<rparr>],
      wJustification = ''right''\<rparr>"

definition stuck_column :: Column where
  "stuck_column = spring_column\<lparr>obj_h := 30\<rparr>"

text \<open>
  A row of width 4 with one box of natural width 5 and minimum width 3, and the same row after
  it has been adjusted at width 4 and then widened to 100 through its setter.
\<close>

definition narrow_store :: store where
  "narrow_store =
     \<lparr>cells = (\<lambda>_. \<lparr>nat_c = 0, min_c = 0, max_c = 0\<rparr>)
        (0 := \<lparr>nat_c = 5, min_c = 3, max_c = 5\<rparr>,
         1 := \<lparr>nat_c = 2, min_c = 2, max_c = 2\<rparr>,
         2 := \<lparr>nat_c = 4, min_c = 4, max_c = 4\<rparr>,
         3 := \<lparr>nat_c = 13, min_c = 0, max_c = 1000\<rparr>),
      next_ref = 4\<rparr>"

definition narrow_row :: Row where
  "narrow_row =
     \<lparr>obj_isSpring = False, obj_x = 0, obj_y = 0, obj_w = 4, obj_h = 13,
      obj_wConfig = 2, obj_hConfig = 3,
      children =
        [\<lparr>obj_isSpring = False, obj_x = 0, obj_y = 0, obj_w = 5, obj_h = 2,
          obj_wConfig = 0, obj_hConfig = 1\<rparr>],
      hJustification = ''top''\<rparr>"

definition widened_row :: "store \<times> Row" where
  "widened_row = Row_set_w 100 (narrow_store, Row_adjustChildren narrow_store narrow_row)"

section \<open>The containers in full: children of any class, arithmetic in doubles\<close>

text \<open>
  The embedding above sees a child through the interface of the base class and computes with
  exact real numbers.  The second embedding of the same two source files keeps what that one
  leaves out.
  \<^item> A child knows whether it is itself a Row or a Column.  Row overrides the setter of
    \<^verbatim>\<open>w\<close> and Column the setter of \<^verbatim>\<open>h\<close> (lines 48 to 59 of both files): assigning a new
    size to such a child constructs \<^verbatim>\<open>SizeConfig.fixed(v)\<close> and makes it the configuration of
    the child.  So the loops over the children pass the store along and return it.
  \<^item> Every arithmetic result goes through a rounding function \<open>rd\<close>.  With \<open>rd\<close> the identity
    the arithmetic is exact; with \<open>double\<close> it is that of JavaScript numbers.
  The lemmas on the second embedding show that with exact arithmetic and without children that
  are a Row or a Column it does what the first one does (\<open>NRow_layout_pass_plain\<close>,
  \<open>NColumn_layout_pass_plain\<close>).
\<close>

subsection \<open>JavaScript numbers\<close>

text \<open>
  Rounding to the nearest IEEE 754 binary64 number, ties to even.  \<open>binade n x\<close> is the
  exponent \<open>e\<close> with \<open>2 ^ e \<le> x < 2 ^ (e + 1)\<close> of a positive \<open>x\<close>, found in at most \<open>n\<close>
  steps; \<open>ulp x\<close> is the distance between neighbouring doubles around \<open>x\<close>, also for
  subnormal numbers.  Overflow to an infinity is not modelled.
\<close>

fun binade :: "nat \<Rightarrow> real \<Rightarrow> int" where
  "binade 0 x = 0"
| "binade (Suc n) x =
     (if x < 1 then binade n (2 * x) - 1
      else if 2 \<le> x then binade n (x / 2) + 1
      else 0)"

definition round_half_even :: "real \<Rightarrow> int" where
  "round_half_even y =
     (let f = \<lfloor>y\<rfloor>; d = y - of_int f
      in if d < 1 / 2 then f else if 1 / 2 < d then f + 1 else if even f then f else f + 1)"

definition ulp :: "real \<Rightarrow> real" where
  "ulp x =
     (let e = max (binade 1100 \<bar>x\<bar>) (- 1022) - 52
      in if 0 \<le> e then 2 ^ nat e else 1 / 2 ^ nat (- e))"

definition double :: "real \<Rightarrow> real" where
  "double x = (if x = 0 then 0 else real_of_int (round_half_even (x / ulp x)) * ulp x)"

subsection \<open>Children that know their class\<close>

datatype child_class = PlainObject | RowObject | ColumnObject

record NChild = DrawnObject +
  obj_class :: child_class

record NGroup = DrawnObject +
  nchildren :: "NChild list"

record NRow = NGroup +
  n_hJustification :: string

record NColumn = NGroup +
  n_wJustification :: string

text \<open>
  \<^verbatim>\<open>child.w = v\<close>: the setter of Row (Row.js, lines 50 to 58) when the child is a Row,
  otherwise the setter of the base class, which stores the value.
\<close>

definition child_set_w :: "real \<Rightarrow> store \<times> NChild \<Rightarrow> store \<times> NChild" where
  "child_set_w v s =
     (case s of (st, child) \<Rightarrow>
        if obj_class child = RowObject then
          (if \<not> (v = obj_w child) then
             (case SizeConfig_fixed v st of (c, st') \<Rightarrow>
                (st', child\<lparr>obj_w := v, obj_wConfig := c\<rparr>))
           else (st, child))
        else (st, child\<lparr>obj_w := v\<rparr>))"

text \<open>
  \<^verbatim>\<open>child.h = v\<close>: the setter of Column (Column.js, lines 50 to 58) when the child is a
  Column, otherwise the setter of the base class.
\<close>

definition child_set_h :: "real \<Rightarrow> store \<times> NChild \<Rightarrow> store \<times> NChild" where
  "child_set_h v s =
     (case s of (st, child) \<Rightarrow>
        if obj_class child = ColumnObject then
          (if \<not> (v = obj_h child) then
             (case SizeConfig_fixed v st of (c, st') \<Rightarrow>
                (st', child\<lparr>obj_h := v, obj_hConfig := c\<rparr>))
           else (st, child))
        else (st, child\<lparr>obj_h := v\<rparr>))"

subsection \<open>Row, in full\<close>

definition NRow_set_w :: "real \<Rightarrow> store \<times> NRow \<Rightarrow> store \<times> NRow" where
  "NRow_set_w v s =
     (case s of (st, this) \<Rightarrow>
        if \<not> (v = obj_w this) then
          (case SizeConfig_fixed v st of (c, st') \<Rightarrow> (st', this\<lparr>obj_w := v, obj_wConfig := c\<rparr>))
        else (st, this))"

fun NRow_sizing_loop ::
  "(real \<Rightarrow> real) \<Rightarrow> store \<Rightarrow> NChild list \<Rightarrow> real \<times> real \<times> real \<times> real \<times> real \<times> real \<Rightarrow>
     real \<times> real \<times> real \<times> real \<times> real \<times> real" where
  "NRow_sizing_loop rd st [] acc = acc"
| "NRow_sizing_loop rd st (child # rest) (minW', naturalW', maxW', minH, naturalH, maxH) =
     NRow_sizing_loop rd st rest
       (rd (minW' + min_c (wConfig st child)),
        rd (naturalW' + nat_c (wConfig st child)),
        rd (maxW' + max_c (wConfig st child)),
        max minH (min_c (hConfig st child)),
        max naturalH (nat_c (hConfig st child)),
        max maxH (max_c (hConfig st child)))"

definition NRow_doLocalSizing :: "(real \<Rightarrow> real) \<Rightarrow> store \<times> NRow \<Rightarrow> store \<times> NRow" where
  "NRow_doLocalSizing rd s =
     (case s of (st, this) \<Rightarrow>
        (case NRow_sizing_loop rd st (nchildren this) (0, 0, 0, 0, 0, 0) of
           (minW', naturalW', maxW', minH, naturalH, maxH) \<Rightarrow>
             (case new_SizeConfig naturalH minH maxH st of (hc, st1) \<Rightarrow>
               (case new_SizeConfig naturalW' minW' maxW' st1 of (wc, st2) \<Rightarrow>
                  (st2, this\<lparr>obj_hConfig := hc, obj_wConfig := wc\<rparr>)))))"

fun NRow_measure_loop ::
  "(real \<Rightarrow> real) \<Rightarrow> store \<Rightarrow> NChild list \<Rightarrow> real \<times> real \<times> nat \<Rightarrow> real \<times> real \<times> nat" where
  "NRow_measure_loop rd st [] acc = acc"
| "NRow_measure_loop rd st (child # rest) (natSum, availCompr, numSprings) =
     (if obj_isSpring child
      then NRow_measure_loop rd st rest (natSum, availCompr, numSprings + 1)
      else
        (let compr = rd (naturalW st child - minW st child)
         in NRow_measure_loop rd st rest
              (rd (natSum + naturalW st child), rd (availCompr + compr), numSprings)))"

definition NRow_measureChildren ::
  "(real \<Rightarrow> real) \<Rightarrow> store \<Rightarrow> NRow \<Rightarrow> real \<times> real \<times> nat" where
  "NRow_measureChildren rd st this = NRow_measure_loop rd st (nchildren this) (0, 0, 0)"

text \<open>
  The loop \<^verbatim>\<open>if (child instanceof Spring) child.w = v\<close>, which \<^verbatim>\<open>_expandChildSprings\<close>
  runs with \<open>v = eachExcess\<close> and \<^verbatim>\<open>_adjustChildren\<close> with \<open>v = 0\<close>.
\<close>

fun NRow_springs_loop :: "real \<Rightarrow> store \<Rightarrow> NChild list \<Rightarrow> store \<times> NChild list" where
  "NRow_springs_loop v st [] = (st, [])"
| "NRow_springs_loop v st (child # rest) =
     (case (if obj_isSpring child then child_set_w v (st, child) else (st, child)) of
        (st1, child1) \<Rightarrow>
          (case NRow_springs_loop v st1 rest of (st2, rest') \<Rightarrow> (st2, child1 # rest')))"

definition NRow_expandChildSprings ::
  "(real \<Rightarrow> real) \<Rightarrow> real \<Rightarrow> nat \<Rightarrow> store \<times> NRow \<Rightarrow> store \<times> NRow" where
  "NRow_expandChildSprings rd excess numSprings s =
     (case s of (st, this) \<Rightarrow>
        if numSprings = 0 then (st, this)
        else
          (let eachExcess = rd (excess / real numSprings)
           in (case NRow_springs_loop eachExcess st (nchildren this) of
                 (st', cs) \<Rightarrow> (st', this\<lparr>nchildren := cs\<rparr>))))"

fun NRow_compress_loop ::
  "(real \<Rightarrow> real) \<Rightarrow> real \<Rightarrow> real \<Rightarrow> store \<Rightarrow> NChild list \<Rightarrow> store \<times> NChild list" where
  "NRow_compress_loop rd shortfall availCompr st [] = (st, [])"
| "NRow_compress_loop rd shortfall availCompr st (child # rest) =
     (case (if \<not> obj_isSpring child then
              (let compr = rd (nat_c (wConfig st child) - min_c (wConfig st child));
                   fraction = rd (compr / availCompr)
               in child_set_w
                    (max (min_c (wConfig st child))
                       (rd (nat_c (wConfig st child) - rd (fraction * shortfall))))
                    (st, child))
            else (st, child)) of
        (st1, child1) \<Rightarrow>
          (case NRow_compress_loop rd shortfall availCompr st1 rest of
             (st2, rest') \<Rightarrow> (st2, child1 # rest')))"

definition NRow_compressChildren ::
  "(real \<Rightarrow> real) \<Rightarrow> real \<Rightarrow> real \<Rightarrow> store \<times> NRow \<Rightarrow> store \<times> NRow" where
  "NRow_compressChildren rd shortfall availCompr s =
     (case s of (st, this) \<Rightarrow>
        (case NRow_compress_loop rd shortfall availCompr st (nchildren this) of
           (st', cs) \<Rightarrow> (st', this\<lparr>nchildren := cs\<rparr>)))"

definition NRow_adjustChildren :: "(real \<Rightarrow> real) \<Rightarrow> store \<times> NRow \<Rightarrow> store \<times> NRow" where
  "NRow_adjustChildren rd s =
     (case s of (st, this) \<Rightarrow>
        (case NRow_measureChildren rd st this of (natSum, availCompr, numSprings) \<Rightarrow>
           (let excess = rd (obj_w this - natSum)
            in if excess \<ge> 0 then NRow_expandChildSprings rd excess numSprings (st, this)
               else
                 (case NRow_springs_loop 0 st (nchildren this) of (st1, cs1) \<Rightarrow>
                    (let this1 = this\<lparr>nchildren := cs1\<rparr>
                     in if availCompr = 0 then (st1, this1)
                        else
                          (let shortfall = - excess;
                               shortfall = min availCompr shortfall
                           in NRow_compressChildren rd shortfall availCompr (st1, this1)))))))"

fun NRow_heights_loop ::
  "store \<Rightarrow> NChild list \<Rightarrow> real \<Rightarrow> store \<times> NChild list \<times> real" where
  "NRow_heights_loop st [] hMax = (st, [], hMax)"
| "NRow_heights_loop st (child # rest) hMax =
     (case child_set_h (nat_c (hConfig st child)) (st, child) of (st1, child') \<Rightarrow>
        (let hMax' = (if obj_h child' > hMax then obj_h child' else hMax)
         in (case NRow_heights_loop st1 rest hMax' of
               (st2, rest', m) \<Rightarrow> (st2, child' # rest', m))))"

fun NRow_stack_loop ::
  "(real \<Rightarrow> real) \<Rightarrow> real \<Rightarrow> string \<Rightarrow> NChild list \<Rightarrow> real \<Rightarrow> NChild list" where
  "NRow_stack_loop rd this_h just [] xpos = []"
| "NRow_stack_loop rd this_h just (child # rest) xpos =
     (let child1 = child\<lparr>obj_x := xpos\<rparr>;
          xpos' = rd (xpos + obj_w child1);
          child2 =
            (if just = ''top'' then child1\<lparr>obj_y := 0\<rparr>
             else if just = ''center''
               then child1\<lparr>obj_y := rd (rd (this_h / 2) - rd (obj_h child1 / 2))\<rparr>
             else if just = ''bottom'' then child1\<lparr>obj_y := rd (this_h - obj_h child1)\<rparr>
             else child1\<lparr>obj_y := 0\<rparr>)
      in child2 # NRow_stack_loop rd this_h just rest xpos')"

definition NRow_completeLocalLayout :: "(real \<Rightarrow> real) \<Rightarrow> store \<times> NRow \<Rightarrow> store \<times> NRow" where
  "NRow_completeLocalLayout rd s =
     (case s of (st, this) \<Rightarrow>
        if length (nchildren this) = 0 then (st, this)
        else
          (case NRow_adjustChildren rd (st, this) of (st1, this1) \<Rightarrow>
             (case NRow_heights_loop st1 (nchildren this1) 0 of (st2, cs, hMax) \<Rightarrow>
                (let this2 = this1\<lparr>nchildren := cs\<rparr>;
                     st3 = st2\<lparr>cells := (cells st2)
                             (obj_hConfig this2 := (cells st2 (obj_hConfig this2))\<lparr>nat_c := hMax\<rparr>)\<rparr>;
                     this3 = this2\<lparr>obj_h := hMax\<rparr>
                 in (st3, this3\<lparr>nchildren :=
                            NRow_stack_loop rd (obj_h this3) (n_hJustification this3)
                              (nchildren this3) 0\<rparr>)))))"

definition NRow_layout_pass :: "(real \<Rightarrow> real) \<Rightarrow> store \<times> NRow \<Rightarrow> store \<times> NRow" where
  "NRow_layout_pass rd s = NRow_completeLocalLayout rd (NRow_doLocalSizing rd s)"

definition NRow_observe ::
  "store \<times> NRow \<Rightarrow>
     (bool \<times> real \<times> real \<times> real \<times> real \<times> SizeConfig \<times> SizeConfig) \<times> string \<times>
     (bool \<times> real \<times> real \<times> real \<times> real \<times> SizeConfig \<times> SizeConfig) list" where
  "NRow_observe s =
     (case s of (st, this) \<Rightarrow>
        (observe_obj st this, n_hJustification this, map (observe_obj st) (nchildren this)))"

subsection \<open>Column, in full\<close>


fun NColumn_sizing_loop ::
  "(real \<Rightarrow> real) \<Rightarrow> store \<Rightarrow> NChild list \<Rightarrow> real \<times> real \<times> real \<times> real \<times> real \<times> real \<Rightarrow>
     real \<times> real \<times> real \<times> real \<times> real \<times> real" where
  "NColumn_sizing_loop rd st [] acc = acc"
| "NColumn_sizing_loop rd st (child # rest) (minW', naturalW', maxW', minH, naturalH, maxH) =
     NColumn_sizing_loop rd st rest
       (max minW' (min_c (wConfig st child)),
        max naturalW' (nat_c (wConfig st child)),
        max maxW' (max_c (wConfig st child)),
        rd (minH + min_c (hConfig st child)),
        rd (naturalH + nat_c (hConfig st child)),
        rd (maxH + max_c (hConfig st child)))"

definition NColumn_doLocalSizing :: "(real \<Rightarrow> real) \<Rightarrow> store \<times> NColumn \<Rightarrow> store \<times> NColumn" where
  "NColumn_doLocalSizing rd s =
     (case s of (st, this) \<Rightarrow>
        (case NColumn_sizing_loop rd st (nchildren this) (0, 0, 0, 0, 0, 0) of
           (minW', naturalW', maxW', minH, naturalH, maxH) \<Rightarrow>
             (case new_SizeConfig naturalH minH maxH st of (hc, st1) \<Rightarrow>
               (case new_SizeConfig naturalW' minW' maxW' st1 of (wc, st2) \<Rightarrow>
                  (st2, this\<lparr>obj_hConfig := hc, obj_wConfig := wc\<rparr>)))))"

fun NColumn_measure_loop ::
  "(real \<Rightarrow> real) \<Rightarrow> store \<Rightarrow> NChild list \<Rightarrow> real \<times> real \<times> nat \<Rightarrow> real \<times> real \<times> nat" where
  "NColumn_measure_loop rd st [] acc = acc"
| "NColumn_measure_loop rd st (child # rest) (natSum, availCompr, numSprings) =
     (if obj_isSpring child
      then NColumn_measure_loop rd st rest (natSum, availCompr, numSprings + 1)
      else
        (let compr = rd (nat_c (hConfig st child) - min_c (hConfig st child))
         in NColumn_measure_loop rd st rest
              (rd (natSum + nat_c (hConfig st child)), rd (availCompr + compr), numSprings)))"

definition NColumn_measureChildren ::
  "(real \<Rightarrow> real) \<Rightarrow> store \<Rightarrow> NColumn \<Rightarrow> real \<times> real \<times> nat" where
  "NColumn_measureChildren rd st this = NColumn_measure_loop rd st (nchildren this) (0, 0, 0)"

text \<open>
  The loop \<^verbatim>\<open>if (child instanceof Spring) child.h = v\<close>, which \<^verbatim>\<open>_expandChildSprings\<close>
  runs with \<open>v = eachExcess\<close> and \<^verbatim>\<open>_adjustChildren\<close> with \<open>v = 0\<close>.
\<close>

fun NColumn_springs_loop :: "real \<Rightarrow> store \<Rightarrow> NChild list \<Rightarrow> store \<times> NChild list" where
  "NColumn_springs_loop v st [] = (st, [])"
| "NColumn_springs_loop v st (child # rest) =
     (case (if obj_isSpring child then child_set_h v (st, child) else (st, child)) of
        (st1, child1) \<Rightarrow>
          (case NColumn_springs_loop v st1 rest of (st2, rest') \<Rightarrow> (st2, child1 # rest')))"

definition NColumn_expandChildSprings ::
  "(real \<Rightarrow> real) \<Rightarrow> real \<Rightarrow> nat \<Rightarrow> store \<times> NColumn \<Rightarrow> store \<times> NColumn" where
  "NColumn_expandChildSprings rd excess numSprings s =
     (case s of (st, this) \<Rightarrow>
        if numSprings = 0 then (st, this)
        else
          (let eachExcess = rd (excess / real numSprings)
           in (case NColumn_springs_loop eachExcess st (nchildren this) of
                 (st', cs) \<Rightarrow> (st', this\<lparr>nchildren := cs\<rparr>))))"

fun NColumn_compress_loop ::
  "(real \<Rightarrow> real) \<Rightarrow> real \<Rightarrow> real \<Rightarrow> store \<Rightarrow> NChild list \<Rightarrow> store \<times> NChild list" where
  "NColumn_compress_loop rd shortfall availCompr st [] = (st, [])"
| "NColumn_compress_loop rd shortfall availCompr st (child # rest) =
     (case (if \<not> obj_isSpring child then
              (let compr = rd (nat_c (hConfig st child) - min_c (hConfig st child));
                   fraction = rd (compr / availCompr)
               in child_set_h
                    (max (min_c (hConfig st child))
                       (rd (nat_c (hConfig st child) - rd (fraction * shortfall))))
                    (st, child))
            else (st, child)) of
        (st1, child1) \<Rightarrow>
          (case NColumn_compress_loop rd shortfall availCompr st1 rest of
             (st2, rest') \<Rightarrow> (st2, child1 # rest')))"

definition NColumn_compressChildren ::
  "(real \<Rightarrow> real) \<Rightarrow> real \<Rightarrow> real \<Rightarrow> store \<times> NColumn \<Rightarrow> store \<times> NColumn" where
  "NColumn_compressChildren rd shortfall availCompr s =
     (case s of (st, this) \<Rightarrow>
        (case NColumn_compress_loop rd shortfall availCompr st (nchildren this) of
           (st', cs) \<Rightarrow> (st', this\<lparr>nchildren := cs\<rparr>)))"

definition NColumn_adjustChildren :: "(real \<Rightarrow> real) \<Rightarrow> store \<times> NColumn \<Rightarrow> store \<times> NColumn" where
  "NColumn_adjustChildren rd s =
     (case s of (st, this) \<Rightarrow>
        (case NColumn_measureChildren rd st this of (natSum, availCompr, numSprings) \<Rightarrow>
           (let excess = rd (obj_h this - natSum)
            in if excess \<ge> 0 then NColumn_expandChildSprings rd excess numSprings (st, this)
               else
                 (case NColumn_springs_loop 0 st (nchildren this) of (st1, cs1) \<Rightarrow>
                    (let this1 = this\<lparr>nchildren := cs1\<rparr>
                     in if availCompr = 0 then (st1, this1)
                        else
                          (let shortfall = - excess;
                               shortfall = min availCompr shortfall
                           in NColumn_compressChildren rd shortfall availCompr (st1, this1)))))))"

fun NColumn_widths_loop ::
  "store \<Rightarrow> NChild list \<Rightarrow> real \<Rightarrow> store \<times> NChild list \<times> real" where
  "NColumn_widths_loop st [] wMax = (st, [], wMax)"
| "NColumn_widths_loop st (child # rest) wMax =
     (case child_set_w (nat_c (wConfig st child)) (st, child) of (st1, child') \<Rightarrow>
        (let wMax' = (if obj_w child' > wMax then obj_w child' else wMax)
         in (case NColumn_widths_loop st1 rest wMax' of
               (st2, rest', m) \<Rightarrow> (st2, child' # rest', m))))"

fun NColumn_stack_loop ::
  "(real \<Rightarrow> real) \<Rightarrow> real \<Rightarrow> string \<Rightarrow> NChild list \<Rightarrow> real \<Rightarrow> NChild list" where
  "NColumn_stack_loop rd this_w just [] ypos = []"
| "NColumn_stack_loop rd this_w just (child # rest) ypos =
     (let child1 = child\<lparr>obj_y := ypos\<rparr>;
          ypos' = rd (ypos + obj_h child1);
          child2 =
            (if just = ''left'' then child1\<lparr>obj_x := 0\<rparr>
             else if just = ''center''
               then child1\<lparr>obj_x := rd (rd (this_w / 2) - rd (obj_w child1 / 2))\<rparr>
             else if just = ''right'' then child1\<lparr>obj_x := rd (this_w - obj_w child1)\<rparr>
             else child1\<lparr>obj_x := 0\<rparr>)
      in child2 # NColumn_stack_loop rd this_w just rest ypos')"

definition NColumn_completeLocalLayout :: "(real \<Rightarrow> real) \<Rightarrow> store \<times> NColumn \<Rightarrow> store \<times> NColumn" where
  "NColumn_completeLocalLayout rd s =
     (case s of (st, this) \<Rightarrow>
        if length (nchildren this) = 0 then (st, this)
        else
          (case NColumn_adjustChildren rd (st, this) of (st1, this1) \<Rightarrow>
             (case NColumn_widths_loop st1 (nchildren this1) 0 of (st2, cs, wMax) \<Rightarrow>
                (let this2 = this1\<lparr>nchildren := cs\<rparr>;
                     st3 = st2\<lparr>cells := (cells st2)
                             (obj_wConfig this2 := (cells st2 (obj_wConfig this2))\<lparr>nat_c := wMax\<rparr>)\<rparr>;
                     this3 = this2\<lparr>obj_w := wMax\<rparr>
                 in (st3, this3\<lparr>nchildren :=
                            NColumn_stack_loop rd (obj_w this3) (n_wJustification this3)
                              (nchildren this3) 0\<rparr>)))))"

definition NColumn_layout_pass :: "(real \<Rightarrow> real) \<Rightarrow> store \<times> NColumn \<Rightarrow> store \<times> NColumn" where
  "NColumn_layout_pass rd s = NColumn_completeLocalLayout rd (NColumn_doLocalSizing rd s)"

definition NColumn_observe ::
  "store \<times> NColumn \<Rightarrow>
     (bool \<times> real \<times> real \<times> real \<times> real \<times> SizeConfig \<times> SizeConfig) \<times> string \<times>
     (bool \<times> real \<times> real \<times> real \<times> real \<times> SizeConfig \<times> SizeConfig) list" where
  "NColumn_observe s =
     (case s of (st, this) \<Rightarrow>
        (observe_obj st this, n_wJustification this, map (observe_obj st) (nchildren this)))"

subsection \<open>Notions for the second embedding\<close>

text \<open>
  \<open>extends st st'\<close>: every object of \<open>st\<close> exists in \<open>st'\<close> with the same three components;
  \<open>st'\<close> may hold objects constructed since.
\<close>

definition extends :: "store \<Rightarrow> store \<Rightarrow> bool" where
  "extends st st' \<longleftrightarrow> next_ref st \<le> next_ref st' \<and> (\<forall>a < next_ref st. cells st' a = cells st a)"

definition n_allocated :: "store \<Rightarrow> NChild list \<Rightarrow> bool" where
  "n_allocated st cs \<longleftrightarrow> (\<forall>c\<in>set cs. obj_wConfig c < next_ref st \<and> obj_hConfig c < next_ref st)"

text \<open>No child is itself a Row or a Column.\<close>

definition plain_children :: "NChild list \<Rightarrow> bool" where
  "plain_children cs \<longleftrightarrow> (\<forall>c\<in>set cs. obj_class c = PlainObject)"



text \<open>A child and a container of the second embedding, seen as those of the first.\<close>

definition to_Row :: "NRow \<Rightarrow> Row" where
  "to_Row this =
     \<lparr>obj_isSpring = obj_isSpring this, obj_x = obj_x this, obj_y = obj_y this,
      obj_w = obj_w this, obj_h = obj_h this,
      obj_wConfig = obj_wConfig this, obj_hConfig = obj_hConfig this,
      children = map DrawnObject.truncate (nchildren this),
      hJustification = n_hJustification this\<rparr>"

definition to_Column :: "NColumn \<Rightarrow> Column" where
  "to_Column this =
     \<lparr>obj_isSpring = obj_isSpring this, obj_x = obj_x this, obj_y = obj_y this,
      obj_w = obj_w this, obj_h = obj_h this,
      obj_wConfig = obj_wConfig this, obj_hConfig = obj_hConfig this,
      children = map DrawnObject.truncate (nchildren this),
      wJustification = n_wJustification this\<rparr>"

text \<open>
  What an assignment to the size of a child may do to the child's configurations: each is the
  object it was, or an object constructed after the store \<open>st\<close>.  The class of the child and
  whether it is a spring stay.
\<close>

definition child_kept :: "store \<Rightarrow> NChild \<Rightarrow> NChild \<Rightarrow> bool" where
  "child_kept st c c' \<longleftrightarrow>
     obj_isSpring c' = obj_isSpring c \<and> obj_class c' = obj_class c \<and>
     (obj_wConfig c' = obj_wConfig c \<or> next_ref st \<le> obj_wConfig c') \<and>
     (obj_hConfig c' = obj_hConfig c \<or> next_ref st \<le> obj_hConfig c')"

text \<open>
  The value a loop accumulates with \<^verbatim>\<open>+=\<close> from \<open>a\<close> over the numbers \<open>xs\<close>, each addition
  rounded.
\<close>

definition rd_sum :: "(real \<Rightarrow> real) \<Rightarrow> real \<Rightarrow> real list \<Rightarrow> real" where
  "rd_sum rd a xs = foldl (\<lambda>s x. rd (s + x)) a xs"

text \<open>
  What \<^verbatim>\<open>_adjustChildren\<close> does to one child that is neither a Row nor a Column, given the
  size of the container and the measured triple, with the rounding of each operation.  The
  lemmas \<open>NRow_adjustChildren_eq\<close> and \<open>NColumn_adjustChildren_eq\<close> show that the embedded
  methods map these functions over such children.
\<close>

definition NRow_adjusted_child ::
  "(real \<Rightarrow> real) \<Rightarrow> store \<Rightarrow> real \<Rightarrow> real \<times> real \<times> nat \<Rightarrow> NChild \<Rightarrow> NChild" where
  "NRow_adjusted_child rd st this_w m child =
     (case m of (natSum, availCompr, numSprings) \<Rightarrow>
        if rd (this_w - natSum) \<ge> 0 then
          (if numSprings \<noteq> 0 \<and> obj_isSpring child
           then child\<lparr>obj_w := rd (rd (this_w - natSum) / real numSprings)\<rparr> else child)
        else if obj_isSpring child then child\<lparr>obj_w := 0\<rparr>
        else if availCompr = 0 then child
        else child\<lparr>obj_w := max (min_c (wConfig st child))
               (rd (nat_c (wConfig st child) -
                  rd (rd (rd (nat_c (wConfig st child) - min_c (wConfig st child)) / availCompr) *
                     min availCompr (- rd (this_w - natSum)))))\<rparr>)"

definition NColumn_adjusted_child ::
  "(real \<Rightarrow> real) \<Rightarrow> store \<Rightarrow> real \<Rightarrow> real \<times> real \<times> nat \<Rightarrow> NChild \<Rightarrow> NChild" where
  "NColumn_adjusted_child rd st this_h m child =
     (case m of (natSum, availCompr, numSprings) \<Rightarrow>
        if rd (this_h - natSum) \<ge> 0 then
          (if numSprings \<noteq> 0 \<and> obj_isSpring child
           then child\<lparr>obj_h := rd (rd (this_h - natSum) / real numSprings)\<rparr> else child)
        else if obj_isSpring child then child\<lparr>obj_h := 0\<rparr>
        else if availCompr = 0 then child
        else child\<lparr>obj_h := max (min_c (hConfig st child))
               (rd (nat_c (hConfig st child) -
                  rd (rd (rd (nat_c (hConfig st child) - min_c (hConfig st child)) / availCompr) *
                     min availCompr (- rd (this_h - natSum)))))\<rparr>)"

subsection \<open>Example layouts of the second embedding\<close>

text \<open>
  A row of width 12 whose two children are rows themselves, each with the width configuration
  (8, 4, 8).  All numbers that occur are small multiples of 1/2, so exact and double arithmetic
  agree on them.
\<close>

definition nested_store :: store where
  "nested_store =
     \<lparr>cells = (\<lambda>_. \<lparr>nat_c = 0, min_c = 0, max_c = 0\<rparr>)
        (0 := \<lparr>nat_c = 8, min_c = 4, max_c = 8\<rparr>,
         1 := \<lparr>nat_c = 3, min_c = 3, max_c = 3\<rparr>,
         2 := \<lparr>nat_c = 8, min_c = 4, max_c = 8\<rparr>,
         3 := \<lparr>nat_c = 5, min_c = 5, max_c = 5\<rparr>,
         4 := \<lparr>nat_c = 12, min_c = 12, max_c = 12\<rparr>,
         5 := \<lparr>nat_c = 13, min_c = 0, max_c = 1000\<rparr>),
      next_ref = 6\<rparr>"

definition nested_row :: NRow where
  "nested_row =
     \<lparr>obj_isSpring = False, obj_x = 0, obj_y = 0, obj_w = 12, obj_h = 13,
      obj_wConfig = 4, obj_hConfig = 5,
      nchildren =
        [\<lparr>obj_isSpring = False, obj_x = 0, obj_y = 0, obj_w = 8, obj_h = 3,
          obj_wConfig = 0, obj_hConfig = 1, obj_class = RowObject\<rparr>,
         \<lparr>obj_isSpring = False, obj_x = 0, obj_y = 0, obj_w = 8, obj_h = 5,
          obj_wConfig = 2, obj_hConfig = 3, obj_class = RowObject\<rparr>],
      n_hJustification = ''top''\<rparr>"

text \<open>The same row and its mirror image as a column, with children of no container class.\<close>

definition boxes_row :: NRow where
  "boxes_row =
     \<lparr>obj_isSpring = False, obj_x = 0, obj_y = 0, obj_w = 12, obj_h = 13,
      obj_wConfig = 4, obj_hConfig = 5,
      nchildren =
        [\<lparr>obj_isSpring = False, obj_x = 0, obj_y = 0, obj_w = 8, obj_h = 3,
          obj_wConfig = 0, obj_hConfig = 1, obj_class = PlainObject\<rparr>,
         \<lparr>obj_isSpring = False, obj_x = 0, obj_y = 0, obj_w = 8, obj_h = 5,
          obj_wConfig = 2, obj_hConfig = 3, obj_class = PlainObject\<rparr>],
      n_hJustification = ''top''\<rparr>"

definition boxes_column :: NColumn where
  "boxes_column =
     \<lparr>obj_isSpring = False, obj_x = 0, obj_y = 0, obj_w = 13, obj_h = 12,
      obj_wConfig = 5, obj_hConfig = 4,
      nchildren =
        [\<lparr>obj_isSpring = False, obj_x = 0, obj_y = 0, obj_w = 3, obj_h = 8,
          obj_wConfig = 1, obj_hConfig = 0, obj_class = PlainObject\<rparr>,
         \<lparr>obj_isSpring = False, obj_x = 0, obj_y = 0, obj_w = 5, obj_h = 8,
          obj_wConfig = 3, obj_hConfig = 2, obj_class = PlainObject\<rparr>],
      n_wJustification = ''left''\<rparr>"






section \<open>Properties\<close>

subsection \<open>Arithmetic and list lemmas\<close>

lemma compress_no_bind:
  fixes n m A S :: real
  assumes "m \<le> n" "0 < S" "S \<le> A"
  shows "max m (n - (n - m) / A * S) = n - (n - m) / A * S"
    and "n - (n - (n - m) / A * S) = (n - m) * (S / A)"
proof -
  have A: "0 < A" using assms by simp
  have "S / A \<le> 1" using assms A by simp
  then have "(n - m) * (S / A) \<le> (n - m) * 1"
    using assms(1) by (intro mult_left_mono) simp_all
  then have "m \<le> n - (n - m) / A * S" by (simp add: field_simps)
  then show "max m (n - (n - m) / A * S) = n - (n - m) / A * S" by simp
  show "n - (n - (n - m) / A * S) = (n - m) * (S / A)" by simp
qed

lemma foldl_max_Max: "foldl max (m::real) xs = Max (insert m (set xs))"
proof (induction xs arbitrary: m)
  case Nil
  then show ?case by simp
next
  case (Cons x xs)
  have "Max (insert (max m x) (set xs)) = Max (insert m (insert x (set xs)))"
    by (cases "set xs = {}") (simp_all add: max.assoc)
  with Cons show ?case by simp
qed

lemma foldl_max_ge: "(m::real) \<le> foldl max m xs" "x \<in> set xs \<Longrightarrow> x \<le> foldl max m xs"
  by (simp_all add: foldl_max_Max)

lemma foldl_max_nonneg:
  assumes "xs \<noteq> []" "\<forall>x\<in>set xs. (0::real) \<le> x"
  shows "foldl max 0 xs = Max (set xs)"
proof -
  have "Max (insert 0 (set xs)) = max 0 (Max (set xs))"
    using assms(1) by simp
  moreover have "0 \<le> Max (set xs)"
  proof -
    from assms(1) have "hd xs \<in> set xs" by simp
    with assms(2) have "0 \<le> hd xs" "hd xs \<le> Max (set xs)" by simp_all
    then show ?thesis by simp
  qed
  ultimately show ?thesis by (simp add: foldl_max_Max)
qed

lemma list_all2_map_eq:
  "list_all2 R xs ys \<Longrightarrow> (\<And>x y. R x y \<Longrightarrow> f x = g y) \<Longrightarrow> map f xs = map g ys"
  by (induction xs ys rule: list_all2_induct) simp_all

subsection \<open>Lemmas about Row\<close>

lemma Row_measure_loop_eq:
  "Row_measure_loop st cs (a, b, n) =
     (a + (\<Sum>c\<leftarrow>filter (\<lambda>c. \<not> obj_isSpring c) cs. naturalW st c),
      b + (\<Sum>c\<leftarrow>filter (\<lambda>c. \<not> obj_isSpring c) cs. naturalW st c - minW st c),
      n + length (filter obj_isSpring cs))"
  by (induction cs arbitrary: a b n) (simp_all add: Let_def)

lemma Row_measureChildren_eq:
  "Row_measureChildren st r =
     ((\<Sum>c\<leftarrow>filter (\<lambda>c. \<not> obj_isSpring c) (children r). nat_c (wConfig st c)),
      (\<Sum>c\<leftarrow>filter (\<lambda>c. \<not> obj_isSpring c) (children r).
          nat_c (wConfig st c) - min_c (wConfig st c)),
      length (filter obj_isSpring (children r)))"
  by (simp add: Row_measureChildren_def Row_measure_loop_eq naturalW_def minW_def)

lemma Row_sum_springs:
  "(\<Sum>c\<leftarrow>filter obj_isSpring
        (map (\<lambda>child. if obj_isSpring child then child\<lparr>obj_w := v\<rparr> else child) cs). obj_w c) =
     real (length (filter obj_isSpring cs)) * v"
  by (induction cs) (simp_all add: algebra_simps)

lemma Row_expand_sum:
  assumes "Row_measureChildren st r = (natSum, availCompr, n)" and "0 < n"
  shows "(\<Sum>c\<leftarrow>filter obj_isSpring (children (Row_expandChildSprings E n r)). obj_w c) = E"
proof -
  from assms(1) have n: "n = length (filter obj_isSpring (children r))"
    by (simp add: Row_measureChildren_eq)
  have "(\<Sum>c\<leftarrow>filter obj_isSpring (children (Row_expandChildSprings E n r)). obj_w c) =
          real n * (E / real n)"
    using assms(2) unfolding n by (simp add: Row_expandChildSprings_def Row_sum_springs)
  also have "\<dots> = E" using assms(2) by simp
  finally show ?thesis .
qed

lemma Row_expand:
  "(n = 0 \<longrightarrow> Row_expandChildSprings E n r = r) \<and>
   (0 < n \<longrightarrow>
      length (children (Row_expandChildSprings E n r)) = length (children r) \<and>
      (\<forall>i < length (children r).
         (obj_isSpring (children r ! i) \<longrightarrow>
            children (Row_expandChildSprings E n r) ! i = (children r ! i)\<lparr>obj_w := E / real n\<rparr>) \<and>
         (\<not> obj_isSpring (children r ! i) \<longrightarrow>
            children (Row_expandChildSprings E n r) ! i = children r ! i)))"
  by (simp add: Row_expandChildSprings_def)

lemma Row_compress_children:
  "children (Row_compressChildren st S A r) =
     map (\<lambda>child. if \<not> obj_isSpring child
            then child\<lparr>obj_w := max (min_c (wConfig st child))
                   (nat_c (wConfig st child) -
                      (nat_c (wConfig st child) - min_c (wConfig st child)) / A * S)\<rparr>
            else child) (children r)"
  by (simp add: Row_compressChildren_def Let_def)

lemma Row_compress_sum:
  assumes "\<forall>c\<in>set cs. \<not> obj_isSpring c \<longrightarrow> min_c (wConfig st c) \<le> nat_c (wConfig st c)"
    and "0 < S" "S \<le> A"
  shows "(\<Sum>c\<leftarrow>filter (\<lambda>c. \<not> obj_isSpring c)
            (map (\<lambda>child. if \<not> obj_isSpring child
               then child\<lparr>obj_w := max (min_c (wConfig st child))
                   (nat_c (wConfig st child) -
                      (nat_c (wConfig st child) - min_c (wConfig st child)) / A * S)\<rparr>
               else child) cs). nat_c (wConfig st c) - obj_w c) =
         (\<Sum>c\<leftarrow>filter (\<lambda>c. \<not> obj_isSpring c) cs.
             nat_c (wConfig st c) - min_c (wConfig st c)) * (S / A)"
  using assms(1)
proof (induction cs)
  case Nil
  then show ?case by simp
next
  case (Cons c cs)
  show ?case
  proof (cases "obj_isSpring c")
    case True
    with Cons show ?thesis by simp
  next
    case False
    then have "min_c (wConfig st c) \<le> nat_c (wConfig st c)" using Cons.prems by simp
    from compress_no_bind[OF this assms(2,3)] False Cons show ?thesis
      by (simp add: wConfig_def algebra_simps)
  qed
qed

lemma Row_compress:
  assumes meas: "Row_measureChildren st r = (natSum, availCompr, numSprings)"
    and S: "0 < S" "S \<le> availCompr"
    and wf: "\<forall>c\<in>set (children r). \<not> obj_isSpring c \<longrightarrow> wellformed (wConfig st c)"
  shows "length (children (Row_compressChildren st S availCompr r)) = length (children r)"
    and "\<forall>i < length (children r). \<not> obj_isSpring (children r ! i) \<longrightarrow>
           obj_w (children (Row_compressChildren st S availCompr r) ! i) =
             max (min_c (wConfig st (children r ! i)))
               (nat_c (wConfig st (children r ! i)) -
                  (nat_c (wConfig st (children r ! i)) - min_c (wConfig st (children r ! i)))
                     / availCompr * S)"
    and "(\<Sum>c\<leftarrow>filter (\<lambda>c. \<not> obj_isSpring c) (children (Row_compressChildren st S availCompr r)).
            nat_c (wConfig st c) - obj_w c) = S"
    and "\<forall>c\<in>set (children (Row_compressChildren st S availCompr r)).
           \<not> obj_isSpring c \<longrightarrow> min_c (wConfig st c) \<le> obj_w c"
proof -
  show "length (children (Row_compressChildren st S availCompr r)) = length (children r)"
    by (simp add: Row_compress_children)
  show "\<forall>i < length (children r). \<not> obj_isSpring (children r ! i) \<longrightarrow>
           obj_w (children (Row_compressChildren st S availCompr r) ! i) =
             max (min_c (wConfig st (children r ! i)))
               (nat_c (wConfig st (children r ! i)) -
                  (nat_c (wConfig st (children r ! i)) - min_c (wConfig st (children r ! i)))
                     / availCompr * S)"
    by (simp add: Row_compress_children)
  have A: "availCompr = (\<Sum>c\<leftarrow>filter (\<lambda>c. \<not> obj_isSpring c) (children r).
          nat_c (wConfig st c) - min_c (wConfig st c))"
    using meas by (simp add: Row_measureChildren_eq)
  have wf': "\<forall>c\<in>set (children r). \<not> obj_isSpring c \<longrightarrow> min_c (wConfig st c) \<le> nat_c (wConfig st c)"
    using wf by (simp add: wellformed_def)
  have "(\<Sum>c\<leftarrow>filter (\<lambda>c. \<not> obj_isSpring c) (children (Row_compressChildren st S availCompr r)).
            nat_c (wConfig st c) - obj_w c) = availCompr * (S / availCompr)"
    unfolding Row_compress_children Row_compress_sum[OF wf' S] using A by simp
  also have "\<dots> = S" using S by simp
  finally show "(\<Sum>c\<leftarrow>filter (\<lambda>c. \<not> obj_isSpring c) (children (Row_compressChildren st S availCompr r)).
            nat_c (wConfig st c) - obj_w c) = S" .
  show "\<forall>c\<in>set (children (Row_compressChildren st S availCompr r)).
           \<not> obj_isSpring c \<longrightarrow> min_c (wConfig st c) \<le> obj_w c"
    by (auto simp: Row_compress_children wConfig_def)
qed

lemma Row_adjustChildren_eq:
  "Row_adjustChildren st r =
     r\<lparr>children := map (Row_adjusted_child st (obj_w r) (Row_measureChildren st r)) (children r)\<rparr>"
proof -
  obtain natSum availCompr numSprings where m: "Row_measureChildren st r = (natSum, availCompr, numSprings)"
    by (cases "Row_measureChildren st r") auto
  have id: "map (\<lambda>c. c) (children r) = children r" by simp
  consider (expand0) "obj_w r - natSum \<ge> 0" "numSprings = 0"
    | (expand) "obj_w r - natSum \<ge> 0" "numSprings \<noteq> 0"
    | (stuck) "\<not> obj_w r - natSum \<ge> 0" "availCompr = 0"
    | (compress) "\<not> obj_w r - natSum \<ge> 0" "availCompr \<noteq> 0"
    by blast
  then show ?thesis
  proof cases
    case expand0
    then have "map (Row_adjusted_child st (obj_w r) (natSum, availCompr, numSprings)) (children r) =
        children r"
      by (intro map_idI) (simp add: Row_adjusted_child_def)
    with expand0 show ?thesis
      by (simp add: Row_adjustChildren_def m Row_expandChildSprings_def)
  next
    case expand
    then show ?thesis
      by (simp add: Row_adjustChildren_def m Row_expandChildSprings_def Row_adjusted_child_def)
  next
    case stuck
    then show ?thesis
      by (simp add: Row_adjustChildren_def m Row_adjusted_child_def)
  next
    case compress
    then show ?thesis
      by (simp add: Row_adjustChildren_def m Row_compressChildren_def Row_adjusted_child_def
            Let_def wConfig_def)
  qed
qed

lemma Row_adjust_excess:
  assumes "Row_measureChildren st r = (natSum, availCompr, numSprings)" "obj_w r - natSum \<ge> 0"
  shows "Row_adjustChildren st r = Row_expandChildSprings (obj_w r - natSum) numSprings r"
  using assms by (simp add: Row_adjustChildren_def)

lemma Row_adjust_stuck:
  assumes "Row_measureChildren st r = (natSum, availCompr, numSprings)" "obj_w r - natSum < 0"
    "availCompr = 0"
  shows "Row_adjustChildren st r =
     r\<lparr>children := map (\<lambda>child. if obj_isSpring child then child\<lparr>obj_w := 0\<rparr> else child) (children r)\<rparr>"
  using assms by (simp add: Row_adjustChildren_def)

lemma Row_heights_loop_eq:
  "Row_heights_loop st cs m =
     (map (\<lambda>c. c\<lparr>obj_h := nat_c (hConfig st c)\<rparr>) cs,
      foldl max m (map (\<lambda>c. nat_c (hConfig st c)) cs))"
  by (induction cs arbitrary: m) (simp_all add: Let_def max_def)

lemma Row_stack_length [simp]: "length (Row_stack_loop H j cs x) = length cs"
  by (induction cs arbitrary: x) (simp_all add: Let_def)

lemma Row_stack_nth:
  "i < length cs \<Longrightarrow>
     Row_stack_loop H j cs x ! i =
       (cs ! i)\<lparr>obj_x := x + sum_list (map obj_w (take i cs)),
                 obj_y := (if j = ''top'' then 0
                           else if j = ''center'' then H / 2 - obj_h (cs ! i) / 2
                           else if j = ''bottom'' then H - obj_h (cs ! i)
                           else 0)\<rparr>"
proof (induction cs arbitrary: x i)
  case Nil
  then show ?case by simp
next
  case (Cons c cs)
  show ?case
  proof (cases i)
    case 0
    then show ?thesis by (simp add: Let_def)
  next
    case (Suc k)
    with Cons.prems have "k < length cs" by simp
    from Cons.IH[OF this] Suc show ?thesis by (simp add: Let_def add.assoc)
  qed
qed

lemma Row_adjusted_child_refs [simp]:
  "obj_hConfig (Row_adjusted_child st W m c) = obj_hConfig c"
  "obj_wConfig (Row_adjusted_child st W m c) = obj_wConfig c"
  "obj_isSpring (Row_adjusted_child st W m c) = obj_isSpring c"
  "obj_h (Row_adjusted_child st W m c) = obj_h c"
  "obj_x (Row_adjusted_child st W m c) = obj_x c"
  "obj_y (Row_adjusted_child st W m c) = obj_y c"
  by (cases m; simp add: Row_adjusted_child_def)+

lemma Row_completeLocalLayout_eq:
  assumes "children r \<noteq> []"
  shows "Row_completeLocalLayout (st, r) =
     (st\<lparr>cells := (cells st)(obj_hConfig r := (cells st (obj_hConfig r))
              \<lparr>nat_c := foldl max 0 (map (\<lambda>c. nat_c (hConfig st c)) (children r))\<rparr>)\<rparr>,
      r\<lparr>obj_h := foldl max 0 (map (\<lambda>c. nat_c (hConfig st c)) (children r)),
        children := Row_stack_loop (foldl max 0 (map (\<lambda>c. nat_c (hConfig st c)) (children r)))
           (hJustification r)
           (map (\<lambda>c. (Row_adjusted_child st (obj_w r) (Row_measureChildren st r) c)
                   \<lparr>obj_h := nat_c (hConfig st c)\<rparr>) (children r)) 0\<rparr>)"
  using assms
  by (simp add: Row_completeLocalLayout_def Row_adjustChildren_eq Row_heights_loop_eq Let_def
        o_def hConfig_def)

lemma Row_placement:
  assumes ne: "children r \<noteq> []" and res: "Row_completeLocalLayout (st, r) = (st', r')"
  shows "length (children r') = length (children r)"
    and "obj_x (children r' ! 0) = 0"
    and "\<forall>i. Suc i < length (children r') \<longrightarrow>
           obj_x (children r' ! Suc i) = obj_x (children r' ! i) + obj_w (children r' ! i)"
    and "\<forall>i < length (children r').
           obj_y (children r' ! i) =
             (if hJustification r = ''top'' then 0
              else if hJustification r = ''center'' then (obj_h r' - obj_h (children r' ! i)) / 2
              else if hJustification r = ''bottom'' then obj_h r' - obj_h (children r' ! i)
              else 0)"
    and "\<forall>i < length (children r'). 0 \<le> obj_y (children r' ! i) \<and>
           obj_y (children r' ! i) + obj_h (children r' ! i) \<le> obj_h r'"
    and "\<forall>i < length (children r). obj_h (children r' ! i) = nat_c (hConfig st (children r ! i))"
    and "obj_h r' = foldl max 0 (map (\<lambda>c. nat_c (hConfig st c)) (children r))"
proof -
  let ?H = "foldl max 0 (map (\<lambda>c. nat_c (hConfig st c)) (children r))"
  let ?cs = "map (\<lambda>c. (Row_adjusted_child st (obj_w r) (Row_measureChildren st r) c)
                   \<lparr>obj_h := nat_c (hConfig st c)\<rparr>) (children r)"
  from res have r': "r' = r\<lparr>obj_h := ?H, children := Row_stack_loop ?H (hJustification r) ?cs 0\<rparr>"
    unfolding Row_completeLocalLayout_eq[OF ne] by simp
  show len: "length (children r') = length (children r)" by (simp add: r')
  show "obj_h r' = ?H" by (simp add: r')
  from ne show "obj_x (children r' ! 0) = 0" by (simp add: r' Row_stack_nth)
  show "\<forall>i. Suc i < length (children r') \<longrightarrow>
           obj_x (children r' ! Suc i) = obj_x (children r' ! i) + obj_w (children r' ! i)"
    by (simp add: r' Row_stack_nth take_Suc_conv_app_nth)
  show "\<forall>i < length (children r').
           obj_y (children r' ! i) =
             (if hJustification r = ''top'' then 0
              else if hJustification r = ''center'' then (obj_h r' - obj_h (children r' ! i)) / 2
              else if hJustification r = ''bottom'' then obj_h r' - obj_h (children r' ! i)
              else 0)"
    by (simp add: r' Row_stack_nth diff_divide_distrib)
  show "\<forall>i < length (children r). obj_h (children r' ! i) = nat_c (hConfig st (children r ! i))"
    by (simp add: r' Row_stack_nth)
  show "\<forall>i < length (children r'). 0 \<le> obj_y (children r' ! i) \<and>
           obj_y (children r' ! i) + obj_h (children r' ! i) \<le> obj_h r'"
  proof (intro allI impI)
    fix i assume "i < length (children r')"
    then have i: "i < length (children r)" using len by simp
    then have "nat_c (hConfig st (children r ! i)) \<in> set (map (\<lambda>c. nat_c (hConfig st c)) (children r))"
      by simp
    then have le: "nat_c (hConfig st (children r ! i)) \<le> ?H" by (rule foldl_max_ge(2))
    from i le show "0 \<le> obj_y (children r' ! i) \<and>
           obj_y (children r' ! i) + obj_h (children r' ! i) \<le> obj_h r'"
      by (simp add: r' Row_stack_nth field_simps)
  qed
qed

lemma Row_sizing_loop_eq:
  "Row_sizing_loop st cs (a, b, c, d, e, f) =
     (a + (\<Sum>x\<leftarrow>cs. min_c (wConfig st x)),
      b + (\<Sum>x\<leftarrow>cs. nat_c (wConfig st x)),
      c + (\<Sum>x\<leftarrow>cs. max_c (wConfig st x)),
      foldl max d (map (\<lambda>x. min_c (hConfig st x)) cs),
      foldl max e (map (\<lambda>x. nat_c (hConfig st x)) cs),
      foldl max f (map (\<lambda>x. max_c (hConfig st x)) cs))"
  by (induction cs arbitrary: a b c d e f) simp_all

lemma Row_doLocalSizing_eq:
  "Row_doLocalSizing (st, r) =
     (st\<lparr>cells := (cells st)
           (next_ref st :=
              \<lparr>nat_c = foldl max 0 (map (\<lambda>x. nat_c (hConfig st x)) (children r)),
               min_c = foldl max 0 (map (\<lambda>x. min_c (hConfig st x)) (children r)),
               max_c = foldl max 0 (map (\<lambda>x. max_c (hConfig st x)) (children r))\<rparr>,
            Suc (next_ref st) :=
              \<lparr>nat_c = (\<Sum>x\<leftarrow>children r. nat_c (wConfig st x)),
               min_c = (\<Sum>x\<leftarrow>children r. min_c (wConfig st x)),
               max_c = (\<Sum>x\<leftarrow>children r. max_c (wConfig st x))\<rparr>),
         next_ref := Suc (Suc (next_ref st))\<rparr>,
      r\<lparr>obj_hConfig := next_ref st, obj_wConfig := Suc (next_ref st)\<rparr>)"
  by (simp add: Row_doLocalSizing_def Row_sizing_loop_eq new_SizeConfig_def)

lemma Row_sizing:
  assumes res: "Row_doLocalSizing (st, r) = (st', r')"
    and wf: "\<forall>c\<in>set (children r). wellformed (wConfig st c) \<and> wellformed (hConfig st c)"
  shows "wConfig st' r' =
           \<lparr>nat_c = (\<Sum>c\<leftarrow>children r. nat_c (wConfig st c)),
            min_c = (\<Sum>c\<leftarrow>children r. min_c (wConfig st c)),
            max_c = (\<Sum>c\<leftarrow>children r. max_c (wConfig st c))\<rparr>"
    and "hConfig st' r' =
           (if children r = [] then \<lparr>nat_c = 0, min_c = 0, max_c = 0\<rparr>
            else \<lparr>nat_c = Max ((\<lambda>c. nat_c (hConfig st c)) ` set (children r)),
                  min_c = Max ((\<lambda>c. min_c (hConfig st c)) ` set (children r)),
                  max_c = Max ((\<lambda>c. max_c (hConfig st c)) ` set (children r))\<rparr>)"
proof -
  from res show "wConfig st' r' =
           \<lparr>nat_c = (\<Sum>c\<leftarrow>children r. nat_c (wConfig st c)),
            min_c = (\<Sum>c\<leftarrow>children r. min_c (wConfig st c)),
            max_c = (\<Sum>c\<leftarrow>children r. max_c (wConfig st c))\<rparr>"
    unfolding Row_doLocalSizing_eq by (auto simp: wConfig_def)
  have nn: "\<forall>x\<in>set (map (\<lambda>c. nat_c (hConfig st c)) (children r)). 0 \<le> x"
    "\<forall>x\<in>set (map (\<lambda>c. min_c (hConfig st c)) (children r)). 0 \<le> x"
    "\<forall>x\<in>set (map (\<lambda>c. max_c (hConfig st c)) (children r)). 0 \<le> x"
    using wf by (auto simp: wellformed_def)
  show "hConfig st' r' =
           (if children r = [] then \<lparr>nat_c = 0, min_c = 0, max_c = 0\<rparr>
            else \<lparr>nat_c = Max ((\<lambda>c. nat_c (hConfig st c)) ` set (children r)),
                  min_c = Max ((\<lambda>c. min_c (hConfig st c)) ` set (children r)),
                  max_c = Max ((\<lambda>c. max_c (hConfig st c)) ` set (children r))\<rparr>)"
  proof (cases "children r = []")
    case True
    with res show ?thesis unfolding Row_doLocalSizing_eq by (auto simp: hConfig_def)
  next
    case False
    then have ne: "map (\<lambda>c. nat_c (hConfig st c)) (children r) \<noteq> []"
      "map (\<lambda>c. min_c (hConfig st c)) (children r) \<noteq> []"
      "map (\<lambda>c. max_c (hConfig st c)) (children r) \<noteq> []" by simp_all
    have "hConfig st' r' =
        \<lparr>nat_c = foldl max 0 (map (\<lambda>x. nat_c (hConfig st x)) (children r)),
         min_c = foldl max 0 (map (\<lambda>x. min_c (hConfig st x)) (children r)),
         max_c = foldl max 0 (map (\<lambda>x. max_c (hConfig st x)) (children r))\<rparr>"
      using res unfolding Row_doLocalSizing_eq by (auto simp: hConfig_def)
    then show ?thesis
      using False
      by (simp only: foldl_max_nonneg[OF ne(1) nn(1)] foldl_max_nonneg[OF ne(2) nn(2)]
            foldl_max_nonneg[OF ne(3) nn(3)] set_map if_False)
  qed
qed

lemma Row_measure_loop_cong:
  assumes "list_all2 (\<lambda>a b. obj_isSpring a = obj_isSpring b \<and> wConfig st2 a = wConfig st b) cs2 cs"
  shows "Row_measure_loop st2 cs2 acc = Row_measure_loop st cs acc"
  using assms
proof (induction cs2 cs arbitrary: acc rule: list_all2_induct)
  case Nil
  then show ?case by simp
next
  case (Cons a cs2 b cs)
  then show ?case by (cases acc) (simp add: naturalW_def minW_def)
qed

lemma Row_adjusted_child_fix:
  assumes "obj_isSpring c' = obj_isSpring c" "wConfig st2 c' = wConfig st c"
    "obj_w c' = obj_w (Row_adjusted_child st W m c)"
  shows "Row_adjusted_child st2 W m c' = c'"
  using assms by (cases m) (auto simp: Row_adjusted_child_def split: if_splits)

lemma Row_stack_idem:
  "Row_stack_loop H j (Row_stack_loop H j cs 0) 0 = Row_stack_loop H j cs 0"
proof (rule nth_equalityI)
  show "length (Row_stack_loop H j (Row_stack_loop H j cs 0) 0) = length (Row_stack_loop H j cs 0)"
    by simp
next
  fix i assume "i < length (Row_stack_loop H j (Row_stack_loop H j cs 0) 0)"
  then have i: "i < length cs" by simp
  have "map obj_w (take i (Row_stack_loop H j cs 0)) = map obj_w (take i cs)"
    using i by (intro nth_equalityI) (simp_all add: Row_stack_nth)
  then show "Row_stack_loop H j (Row_stack_loop H j cs 0) 0 ! i = Row_stack_loop H j cs 0 ! i"
    using i by (simp add: Row_stack_nth)
qed

lemma Row_pass_settled:
  assumes alloc: "allocated st (children r)"
    and ne: "children r \<noteq> []"
    and fix_w: "\<forall>c\<in>set (children r). Row_adjusted_child st (obj_w r) (Row_measureChildren st r) c = c"
    and fix_h: "\<forall>c\<in>set (children r). obj_h c = nat_c (hConfig st c)"
    and fix_xy: "Row_stack_loop (obj_h r) (hJustification r) (children r) 0 = children r"
    and H: "obj_h r = foldl max 0 (map (\<lambda>c. nat_c (hConfig st c)) (children r))"
    and hc: "hConfig st r =
              \<lparr>nat_c = foldl max 0 (map (\<lambda>x. nat_c (hConfig st x)) (children r)),
               min_c = foldl max 0 (map (\<lambda>x. min_c (hConfig st x)) (children r)),
               max_c = foldl max 0 (map (\<lambda>x. max_c (hConfig st x)) (children r))\<rparr>"
    and wc: "wConfig st r =
              \<lparr>nat_c = (\<Sum>x\<leftarrow>children r. nat_c (wConfig st x)),
               min_c = (\<Sum>x\<leftarrow>children r. min_c (wConfig st x)),
               max_c = (\<Sum>x\<leftarrow>children r. max_c (wConfig st x))\<rparr>"
  shows "Row_observe (Row_layout_pass (st, r)) = Row_observe (st, r)"
proof -
  obtain st1 r1 where s1: "Row_doLocalSizing (st, r) = (st1, r1)" by force
  have r1: "r1 = r\<lparr>obj_hConfig := next_ref st, obj_wConfig := Suc (next_ref st)\<rparr>"
    and st1_old: "\<And>a. a < next_ref st \<Longrightarrow> cells st1 a = cells st a"
    and st1_h: "cells st1 (next_ref st) = hConfig st r"
    and st1_w: "cells st1 (Suc (next_ref st)) = wConfig st r"
    using s1 unfolding Row_doLocalSizing_eq hc wc by auto
  have agree: "\<And>c. c \<in> set (children r) \<Longrightarrow> wConfig st1 c = wConfig st c \<and> hConfig st1 c = hConfig st c"
    using alloc st1_old by (simp add: allocated_def wConfig_def hConfig_def)
  have ch1: "children r1 = children r" "obj_w r1 = obj_w r" by (simp_all add: r1)
  have m1: "Row_measureChildren st1 r1 = Row_measureChildren st r"
    unfolding Row_measureChildren_def ch1
    by (rule Row_measure_loop_cong) (simp add: list_all2_same agree)
  have nat1: "map (\<lambda>c. nat_c (hConfig st1 c)) (children r) = map (\<lambda>c. nat_c (hConfig st c)) (children r)"
    by (simp add: agree)
  have L: "map (\<lambda>c. (Row_adjusted_child st1 (obj_w r) (Row_measureChildren st r) c)
                   \<lparr>obj_h := nat_c (hConfig st1 c)\<rparr>) (children r) = children r"
  proof (rule map_idI)
    fix c assume c: "c \<in> set (children r)"
    have "Row_adjusted_child st1 (obj_w r) (Row_measureChildren st r) c = c"
      by (rule Row_adjusted_child_fix[where c = c and st = st]) (simp_all add: agree c fix_w)
    with c fix_h agree show "(Row_adjusted_child st1 (obj_w r) (Row_measureChildren st r) c)
                   \<lparr>obj_h := nat_c (hConfig st1 c)\<rparr> = c" by simp
  qed
  have ne1: "children r1 \<noteq> []" using ne ch1 by simp
  define st2 where
    "st2 = st1\<lparr>cells := (cells st1)(next_ref st := (cells st1 (next_ref st))\<lparr>nat_c := obj_h r\<rparr>)\<rparr>"
  define r2 where "r2 = r1\<lparr>obj_h := obj_h r, children := children r\<rparr>"
  have s2: "Row_completeLocalLayout (st1, r1) = (st2, r2)"
    unfolding Row_completeLocalLayout_eq[OF ne1] ch1 m1 nat1 L st2_def r2_def
    by (simp add: H[symmetric] fix_xy r1)
  note st2 = st2_def and r2 = r2_def
  have "(cells st1 (next_ref st))\<lparr>nat_c := obj_h r\<rparr> = hConfig st r"
    unfolding st1_h by (simp add: hc H)
  then have st2_h: "cells st2 (next_ref st) = hConfig st r" by (simp add: st2)
  have st2_w: "cells st2 (Suc (next_ref st)) = wConfig st r" by (simp add: st2 st1_w)
  have agree2: "\<And>c. c \<in> set (children r) \<Longrightarrow> wConfig st2 c = wConfig st c \<and> hConfig st2 c = hConfig st c"
    using alloc st1_old by (auto simp: allocated_def wConfig_def hConfig_def st2)
  have own: "wConfig st2 r2 = wConfig st r" "hConfig st2 r2 = hConfig st r"
    using st2_h st2_w by (simp_all add: wConfig_def hConfig_def r2 r1)
  have kids: "map (observe_obj st2) (children r) = map (observe_obj st) (children r)"
    by (rule map_cong[OF refl]) (simp add: observe_obj_def agree2)
  have "observe_obj st2 r2 = observe_obj st r"
    by (simp add: observe_obj_def own) (simp add: r2 r1)
  moreover have "children r2 = children r" "hJustification r2 = hJustification r"
    by (simp_all add: r2 r1)
  ultimately have "Row_observe (st2, r2) = Row_observe (st, r)"
    unfolding Row_observe_def by (simp only: prod.case kids)
  then show ?thesis by (simp add: Row_layout_pass_def s1 s2)
qed

lemma Row_pass_settles:
  assumes alloc: "allocated st (children r)"
    and ne: "children r \<noteq> []"
    and pass: "Row_layout_pass (st, r) = (st', r')"
  shows "allocated st' (children r')"
    and "children r' \<noteq> []"
    and "\<forall>c\<in>set (children r'). Row_adjusted_child st' (obj_w r') (Row_measureChildren st' r') c = c"
    and "\<forall>c\<in>set (children r'). obj_h c = nat_c (hConfig st' c)"
    and "Row_stack_loop (obj_h r') (hJustification r') (children r') 0 = children r'"
    and "obj_h r' = foldl max 0 (map (\<lambda>c. nat_c (hConfig st' c)) (children r'))"
    and "hConfig st' r' =
              \<lparr>nat_c = foldl max 0 (map (\<lambda>x. nat_c (hConfig st' x)) (children r')),
               min_c = foldl max 0 (map (\<lambda>x. min_c (hConfig st' x)) (children r')),
               max_c = foldl max 0 (map (\<lambda>x. max_c (hConfig st' x)) (children r'))\<rparr>"
    and "wConfig st' r' =
              \<lparr>nat_c = (\<Sum>x\<leftarrow>children r'. nat_c (wConfig st' x)),
               min_c = (\<Sum>x\<leftarrow>children r'. min_c (wConfig st' x)),
               max_c = (\<Sum>x\<leftarrow>children r'. max_c (wConfig st' x))\<rparr>"
proof -
  define n where "n = next_ref st"
  define W where "W = obj_w r"
  define j where "j = hJustification r"
  define m where "m = Row_measureChildren st r"
  define H where "H = foldl max 0 (map (\<lambda>c. nat_c (hConfig st c)) (children r))"
  define Hc where "Hc =
     \<lparr>nat_c = foldl max 0 (map (\<lambda>x. nat_c (hConfig st x)) (children r)),
      min_c = foldl max 0 (map (\<lambda>x. min_c (hConfig st x)) (children r)),
      max_c = foldl max 0 (map (\<lambda>x. max_c (hConfig st x)) (children r))\<rparr>"
  define Wc where "Wc =
     \<lparr>nat_c = (\<Sum>x\<leftarrow>children r. nat_c (wConfig st x)),
      min_c = (\<Sum>x\<leftarrow>children r. min_c (wConfig st x)),
      max_c = (\<Sum>x\<leftarrow>children r. max_c (wConfig st x))\<rparr>"
  define st1 where "st1 = st\<lparr>cells := (cells st)(n := Hc, Suc n := Wc), next_ref := Suc (Suc n)\<rparr>"
  define r1 where "r1 = r\<lparr>obj_hConfig := n, obj_wConfig := Suc n\<rparr>"
  have s1: "Row_doLocalSizing (st, r) = (st1, r1)"
    by (simp add: Row_doLocalSizing_eq st1_def r1_def Hc_def Wc_def n_def)
  have agree: "\<And>c. c \<in> set (children r) \<Longrightarrow> wConfig st1 c = wConfig st c \<and> hConfig st1 c = hConfig st c"
    using alloc by (auto simp: allocated_def wConfig_def hConfig_def st1_def n_def)
  have ch1: "children r1 = children r" "obj_w r1 = W" "hJustification r1 = j"
    by (simp_all add: r1_def W_def j_def)
  have m1: "Row_measureChildren st1 r1 = m"
    unfolding Row_measureChildren_def ch1 m_def
    by (rule Row_measure_loop_cong) (simp add: list_all2_same agree)
  have nat1: "map (\<lambda>c. nat_c (hConfig st1 c)) (children r) = map (\<lambda>c. nat_c (hConfig st c)) (children r)"
    by (simp add: agree)
  define L where "L = map (\<lambda>c. (Row_adjusted_child st W m c)\<lparr>obj_h := nat_c (hConfig st c)\<rparr>) (children r)"
  have L1: "map (\<lambda>c. (Row_adjusted_child st1 W m c)\<lparr>obj_h := nat_c (hConfig st1 c)\<rparr>) (children r) = L"
    unfolding L_def
  proof (rule map_cong[OF refl])
    fix c assume c: "c \<in> set (children r)"
    then have "Row_adjusted_child st1 W m c = Row_adjusted_child st W m c"
      using agree[OF c] by (cases m) (simp add: Row_adjusted_child_def)
    with agree[OF c] show "(Row_adjusted_child st1 W m c)\<lparr>obj_h := nat_c (hConfig st1 c)\<rparr> =
        (Row_adjusted_child st W m c)\<lparr>obj_h := nat_c (hConfig st c)\<rparr>" by simp
  qed
  have ne1: "children r1 \<noteq> []" using ne ch1 by simp
  have st': "st' = st1\<lparr>cells := (cells st1)(n := (cells st1 n)\<lparr>nat_c := H\<rparr>)\<rparr>"
    and r': "r' = r1\<lparr>obj_h := H, children := Row_stack_loop H j L 0\<rparr>"
    using pass unfolding Row_layout_pass_def s1 Row_completeLocalLayout_eq[OF ne1] ch1 m1 nat1 L1
    by (simp_all add: H_def r1_def)
  have cells': "cells st' n = Hc" "cells st' (Suc n) = Wc" "\<And>a. a < n \<Longrightarrow> cells st' a = cells st a"
    by (simp_all add: st' st1_def Hc_def H_def)
  have own: "obj_h r' = H" "obj_w r' = W" "hJustification r' = j" "hConfig st' r' = Hc"
    "wConfig st' r' = Wc" "children r' = Row_stack_loop H j L 0"
    by (simp_all add: r' r1_def W_def j_def hConfig_def wConfig_def cells')
  have rel: "list_all2 (\<lambda>c' c. obj_isSpring c' = obj_isSpring c \<and> wConfig st' c' = wConfig st c \<and>
                 hConfig st' c' = hConfig st c \<and> obj_w c' = obj_w (Row_adjusted_child st W m c) \<and>
                 obj_h c' = nat_c (hConfig st c) \<and> obj_wConfig c' < n \<and> obj_hConfig c' < n)
               (children r') (children r)"
    unfolding own list_all2_conv_all_nth
  proof (intro conjI allI impI)
    show "length (Row_stack_loop H j L 0) = length (children r)" by (simp add: L_def)
  next
    fix i assume "i < length (Row_stack_loop H j L 0)"
    then have i: "i < length (children r)" by (simp add: L_def)
    then have "children r ! i \<in> set (children r)" by simp
    then have a: "obj_wConfig (children r ! i) < n" "obj_hConfig (children r ! i) < n"
      using alloc by (simp_all add: allocated_def n_def)
    from i have Li: "i < length L" by (simp add: L_def)
    from i a cells'(3) show
      "obj_isSpring (Row_stack_loop H j L 0 ! i) = obj_isSpring (children r ! i)"
      "wConfig st' (Row_stack_loop H j L 0 ! i) = wConfig st (children r ! i)"
      "hConfig st' (Row_stack_loop H j L 0 ! i) = hConfig st (children r ! i)"
      "obj_w (Row_stack_loop H j L 0 ! i) = obj_w (Row_adjusted_child st W m (children r ! i))"
      "obj_h (Row_stack_loop H j L 0 ! i) = nat_c (hConfig st (children r ! i))"
      "obj_wConfig (Row_stack_loop H j L 0 ! i) < n"
      "obj_hConfig (Row_stack_loop H j L 0 ! i) < n"
      by (simp_all add: Row_stack_nth[OF Li] wConfig_def hConfig_def)
        (simp_all add: L_def hConfig_def)
  qed
  have maps:
    "map (\<lambda>x. nat_c (hConfig st' x)) (children r') = map (\<lambda>x. nat_c (hConfig st x)) (children r)"
    "map (\<lambda>x. min_c (hConfig st' x)) (children r') = map (\<lambda>x. min_c (hConfig st x)) (children r)"
    "map (\<lambda>x. max_c (hConfig st' x)) (children r') = map (\<lambda>x. max_c (hConfig st x)) (children r)"
    "map (\<lambda>x. nat_c (wConfig st' x)) (children r') = map (\<lambda>x. nat_c (wConfig st x)) (children r)"
    "map (\<lambda>x. min_c (wConfig st' x)) (children r') = map (\<lambda>x. min_c (wConfig st x)) (children r)"
    "map (\<lambda>x. max_c (wConfig st' x)) (children r') = map (\<lambda>x. max_c (wConfig st x)) (children r)"
    by (rule list_all2_map_eq[OF rel]; simp)+
  have m': "Row_measureChildren st' r' = m"
    unfolding Row_measureChildren_def m_def
    by (rule Row_measure_loop_cong) (rule list_all2_mono[OF rel], simp)
  have nr: "next_ref st' = Suc (Suc n)" by (simp add: st' st1_def)
  show "allocated st' (children r')"
    unfolding allocated_def nr
  proof
    fix c' assume "c' \<in> set (children r')"
    then obtain i where i: "i < length (children r')" "c' = children r' ! i"
      by (auto simp: in_set_conv_nth)
    with rel have "obj_wConfig c' < n" "obj_hConfig c' < n"
      by (simp_all add: list_all2_conv_all_nth)
    then show "obj_wConfig c' < Suc (Suc n) \<and> obj_hConfig c' < Suc (Suc n)" by simp
  qed
  have "length (children r') = length (children r)" by (simp add: own L_def)
  with ne show "children r' \<noteq> []" by auto
  show "\<forall>c\<in>set (children r'). Row_adjusted_child st' (obj_w r') (Row_measureChildren st' r') c = c"
    unfolding m' own(2)
  proof
    fix c' assume "c' \<in> set (children r')"
    then obtain i where i: "i < length (children r')" "c' = children r' ! i"
      by (auto simp: in_set_conv_nth)
    with rel have "obj_isSpring c' = obj_isSpring (children r ! i)"
      "wConfig st' c' = wConfig st (children r ! i)"
      "obj_w c' = obj_w (Row_adjusted_child st W m (children r ! i))"
      by (simp_all add: list_all2_conv_all_nth)
    then show "Row_adjusted_child st' W m c' = c'" by (rule Row_adjusted_child_fix)
  qed
  show "\<forall>c\<in>set (children r'). obj_h c = nat_c (hConfig st' c)"
    using rel by (auto simp: list_all2_conv_all_nth in_set_conv_nth)
  show "Row_stack_loop (obj_h r') (hJustification r') (children r') 0 = children r'"
    unfolding own by (rule Row_stack_idem)
  show "obj_h r' = foldl max 0 (map (\<lambda>c. nat_c (hConfig st' c)) (children r'))"
    unfolding maps own(1) H_def ..
  show "hConfig st' r' =
              \<lparr>nat_c = foldl max 0 (map (\<lambda>x. nat_c (hConfig st' x)) (children r')),
               min_c = foldl max 0 (map (\<lambda>x. min_c (hConfig st' x)) (children r')),
               max_c = foldl max 0 (map (\<lambda>x. max_c (hConfig st' x)) (children r'))\<rparr>"
    unfolding maps own(4) Hc_def ..
  show "wConfig st' r' =
              \<lparr>nat_c = (\<Sum>x\<leftarrow>children r'. nat_c (wConfig st' x)),
               min_c = (\<Sum>x\<leftarrow>children r'. min_c (wConfig st' x)),
               max_c = (\<Sum>x\<leftarrow>children r'. max_c (wConfig st' x))\<rparr>"
    unfolding maps own(5) Wc_def ..
qed

lemma Row_pass_idem:
  assumes alloc: "allocated st (children r)"
  shows "Row_observe (Row_layout_pass (Row_layout_pass (st, r))) = Row_observe (Row_layout_pass (st, r))"
proof (cases "children r = []")
  case True
  then show ?thesis
    by (simp add: Row_layout_pass_def Row_doLocalSizing_eq Row_completeLocalLayout_def
          Row_observe_def observe_obj_def wConfig_def hConfig_def)
next
  case False
  obtain st' r' where p: "Row_layout_pass (st, r) = (st', r')" by force
  show ?thesis
    unfolding p by (rule Row_pass_settled[OF Row_pass_settles[OF alloc False p]])
qed

lemma Row_adjust_keeps:
  assumes "Row_measureChildren st r = (natSum, availCompr, numSprings)" "obj_w r - natSum \<ge> 0"
  shows "length (children (Row_adjustChildren st r)) = length (children r)"
    and "\<forall>i < length (children r). \<not> obj_isSpring (children r ! i) \<longrightarrow>
           children (Row_adjustChildren st r) ! i = children r ! i"
  using assms by (simp_all add: Row_adjustChildren_eq Row_adjusted_child_def)

lemma Row_adjust_zeroes:
  assumes "Row_measureChildren st r = (natSum, availCompr, numSprings)" "obj_w r - natSum < 0"
    "availCompr = 0"
  shows "length (children (Row_adjustChildren st r)) = length (children r)"
    and "\<forall>i < length (children r).
           (obj_isSpring (children r ! i) \<longrightarrow>
              children (Row_adjustChildren st r) ! i = (children r ! i)\<lparr>obj_w := 0\<rparr>) \<and>
           (\<not> obj_isSpring (children r ! i) \<longrightarrow>
              children (Row_adjustChildren st r) ! i = children r ! i)"
  using assms by (simp_all add: Row_adjustChildren_eq Row_adjusted_child_def)

lemma Row_adjust_frame:
  "Row_adjustChildren st r = r\<lparr>children := children (Row_adjustChildren st r)\<rparr>"
  by (simp add: Row_adjustChildren_eq)

lemma Row_doLocalSizing_store:
  assumes "Row_doLocalSizing (st, r) = (st', r')"
  shows "\<forall>a < next_ref st. cells st' a = cells st a"
    and "next_ref st \<le> obj_wConfig r' \<and> obj_wConfig r' < next_ref st'"
    and "next_ref st \<le> obj_hConfig r' \<and> obj_hConfig r' < next_ref st'"
  using assms unfolding Row_doLocalSizing_eq by auto

lemma Row_set_w_store:
  assumes "Row_set_w v (st, r) = (st', r')"
  shows "\<forall>a < next_ref st. cells st' a = cells st a"
    and "v \<noteq> obj_w r \<longrightarrow> next_ref st \<le> obj_wConfig r' \<and> obj_wConfig r' < next_ref st' \<and>
           wConfig st' r' = \<lparr>nat_c = v, min_c = v, max_c = v\<rparr>"
  using assms by (auto simp: Row_set_w_def SizeConfig_fixed_def new_SizeConfig_def wConfig_def
      split: if_splits)

lemma Row_completeLocalLayout_store:
  assumes res: "Row_completeLocalLayout (st, r) = (st', r')"
  shows "\<forall>a. a \<noteq> obj_hConfig r \<longrightarrow> cells st' a = cells st a"
    and "min_c (cells st' (obj_hConfig r)) = min_c (cells st (obj_hConfig r))"
    and "max_c (cells st' (obj_hConfig r)) = max_c (cells st (obj_hConfig r))"
    and "children r \<noteq> [] \<longrightarrow> nat_c (cells st' (obj_hConfig r)) = obj_h r'"
    and "obj_hConfig r' = obj_hConfig r \<and> obj_wConfig r' = obj_wConfig r \<and> next_ref st' = next_ref st"
proof -
  have "(\<forall>a. a \<noteq> obj_hConfig r \<longrightarrow> cells st' a = cells st a) \<and>
    min_c (cells st' (obj_hConfig r)) = min_c (cells st (obj_hConfig r)) \<and>
    max_c (cells st' (obj_hConfig r)) = max_c (cells st (obj_hConfig r)) \<and>
    (children r \<noteq> [] \<longrightarrow> nat_c (cells st' (obj_hConfig r)) = obj_h r') \<and>
    obj_hConfig r' = obj_hConfig r \<and> obj_wConfig r' = obj_wConfig r \<and> next_ref st' = next_ref st"
  proof (cases "children r = []")
    case True
    with res show ?thesis by (auto simp: Row_completeLocalLayout_def)
  next
    case False
    from res show ?thesis unfolding Row_completeLocalLayout_eq[OF False] by auto
  qed
  then show "\<forall>a. a \<noteq> obj_hConfig r \<longrightarrow> cells st' a = cells st a"
    "min_c (cells st' (obj_hConfig r)) = min_c (cells st (obj_hConfig r))"
    "max_c (cells st' (obj_hConfig r)) = max_c (cells st (obj_hConfig r))"
    "children r \<noteq> [] \<longrightarrow> nat_c (cells st' (obj_hConfig r)) = obj_h r'"
    "obj_hConfig r' = obj_hConfig r \<and> obj_wConfig r' = obj_wConfig r \<and> next_ref st' = next_ref st"
    by simp_all
qed

lemma Row_completeLocalLayout_child_refs:
  assumes ne: "children r \<noteq> []" and res: "Row_completeLocalLayout (st, r) = (st', r')"
  shows "\<forall>i < length (children r).
           obj_isSpring (children r' ! i) = obj_isSpring (children r ! i) \<and>
           obj_wConfig (children r' ! i) = obj_wConfig (children r ! i) \<and>
           obj_hConfig (children r' ! i) = obj_hConfig (children r ! i)"
  using res unfolding Row_completeLocalLayout_eq[OF ne] by (auto simp: Row_stack_nth)

lemma Row_shrinkwrap:
  assumes ne: "children r \<noteq> []" and res: "Row_completeLocalLayout (st, r) = (st', r')"
    and nn: "\<forall>c\<in>set (children r). 0 \<le> nat_c (hConfig st c)"
  shows "obj_h r' = Max ((\<lambda>c. nat_c (hConfig st c)) ` set (children r))"
proof -
  have "map (\<lambda>c. nat_c (hConfig st c)) (children r) \<noteq> []" using ne by simp
  moreover have "\<forall>x\<in>set (map (\<lambda>c. nat_c (hConfig st c)) (children r)). 0 \<le> x"
    using nn by simp
  ultimately have "foldl max 0 (map (\<lambda>c. nat_c (hConfig st c)) (children r)) =
      Max (set (map (\<lambda>c. nat_c (hConfig st c)) (children r)))"
    by (rule foldl_max_nonneg)
  with Row_placement(7)[OF ne res] show ?thesis by simp
qed

lemma Row_children_natural_after:
  assumes ne: "children r \<noteq> []" and res: "Row_completeLocalLayout (st, r) = (st', r')"
    and sep: "\<forall>c\<in>set (children r). obj_hConfig c \<noteq> obj_hConfig r"
  shows "\<forall>i < length (children r'). obj_h (children r' ! i) = nat_c (hConfig st' (children r' ! i))"
proof (intro allI impI)
  fix i assume "i < length (children r')"
  then have i: "i < length (children r)" using Row_placement(1)[OF ne res] by simp
  then have "children r ! i \<in> set (children r)" by simp
  with sep have "obj_hConfig (children r ! i) \<noteq> obj_hConfig r" by simp
  moreover have "obj_hConfig (children r' ! i) = obj_hConfig (children r ! i)"
    using Row_completeLocalLayout_child_refs[OF ne res] i by simp
  ultimately have "hConfig st' (children r' ! i) = hConfig st (children r ! i)"
    using Row_completeLocalLayout_store(1)[OF res] by (simp add: hConfig_def)
  with Row_placement(6)[OF ne res] i
  show "obj_h (children r' ! i) = nat_c (hConfig st' (children r' ! i))" by simp
qed

lemma Row_completeLocalLayout_empty:
  "children r = [] \<Longrightarrow> Row_completeLocalLayout (st, r) = (st, r)"
  by (simp add: Row_completeLocalLayout_def)

subsection \<open>Lemmas about Column\<close>

lemma Column_measure_loop_eq:
  "Column_measure_loop st cs (a, b, n) =
     (a + (\<Sum>c\<leftarrow>filter (\<lambda>c. \<not> obj_isSpring c) cs. nat_c (hConfig st c)),
      b + (\<Sum>c\<leftarrow>filter (\<lambda>c. \<not> obj_isSpring c) cs. nat_c (hConfig st c) - min_c (hConfig st c)),
      n + length (filter obj_isSpring cs))"
  by (induction cs arbitrary: a b n) (simp_all add: Let_def)

lemma Column_measureChildren_eq:
  "Column_measureChildren st r =
     ((\<Sum>c\<leftarrow>filter (\<lambda>c. \<not> obj_isSpring c) (children r). nat_c (hConfig st c)),
      (\<Sum>c\<leftarrow>filter (\<lambda>c. \<not> obj_isSpring c) (children r).
          nat_c (hConfig st c) - min_c (hConfig st c)),
      length (filter obj_isSpring (children r)))"
  by (simp add: Column_measureChildren_def Column_measure_loop_eq)

lemma Column_sum_springs:
  "(\<Sum>c\<leftarrow>filter obj_isSpring
        (map (\<lambda>child. if obj_isSpring child then child\<lparr>obj_h := v\<rparr> else child) cs). obj_h c) =
     real (length (filter obj_isSpring cs)) * v"
  by (induction cs) (simp_all add: algebra_simps)

lemma Column_expand_sum:
  assumes "Column_measureChildren st r = (natSum, availCompr, n)" and "0 < n"
  shows "(\<Sum>c\<leftarrow>filter obj_isSpring (children (Column_expandChildSprings E n r)). obj_h c) = E"
proof -
  from assms(1) have n: "n = length (filter obj_isSpring (children r))"
    by (simp add: Column_measureChildren_eq)
  have "(\<Sum>c\<leftarrow>filter obj_isSpring (children (Column_expandChildSprings E n r)). obj_h c) =
          real n * (E / real n)"
    using assms(2) unfolding n by (simp add: Column_expandChildSprings_def Column_sum_springs)
  also have "\<dots> = E" using assms(2) by simp
  finally show ?thesis .
qed

lemma Column_expand:
  "(n = 0 \<longrightarrow> Column_expandChildSprings E n r = r) \<and>
   (0 < n \<longrightarrow>
      length (children (Column_expandChildSprings E n r)) = length (children r) \<and>
      (\<forall>i < length (children r).
         (obj_isSpring (children r ! i) \<longrightarrow>
            children (Column_expandChildSprings E n r) ! i = (children r ! i)\<lparr>obj_h := E / real n\<rparr>) \<and>
         (\<not> obj_isSpring (children r ! i) \<longrightarrow>
            children (Column_expandChildSprings E n r) ! i = children r ! i)))"
  by (simp add: Column_expandChildSprings_def)

lemma Column_compress_children:
  "children (Column_compressChildren st S A r) =
     map (\<lambda>child. if \<not> obj_isSpring child
            then child\<lparr>obj_h := max (min_c (hConfig st child))
                   (nat_c (hConfig st child) -
                      (nat_c (hConfig st child) - min_c (hConfig st child)) / A * S)\<rparr>
            else child) (children r)"
  by (simp add: Column_compressChildren_def Let_def)

lemma Column_compress_sum:
  assumes "\<forall>c\<in>set cs. \<not> obj_isSpring c \<longrightarrow> min_c (hConfig st c) \<le> nat_c (hConfig st c)"
    and "0 < S" "S \<le> A"
  shows "(\<Sum>c\<leftarrow>filter (\<lambda>c. \<not> obj_isSpring c)
            (map (\<lambda>child. if \<not> obj_isSpring child
               then child\<lparr>obj_h := max (min_c (hConfig st child))
                   (nat_c (hConfig st child) -
                      (nat_c (hConfig st child) - min_c (hConfig st child)) / A * S)\<rparr>
               else child) cs). nat_c (hConfig st c) - obj_h c) =
         (\<Sum>c\<leftarrow>filter (\<lambda>c. \<not> obj_isSpring c) cs.
             nat_c (hConfig st c) - min_c (hConfig st c)) * (S / A)"
  using assms(1)
proof (induction cs)
  case Nil
  then show ?case by simp
next
  case (Cons c cs)
  show ?case
  proof (cases "obj_isSpring c")
    case True
    with Cons show ?thesis by simp
  next
    case False
    then have "min_c (hConfig st c) \<le> nat_c (hConfig st c)" using Cons.prems by simp
    from compress_no_bind[OF this assms(2,3)] False Cons show ?thesis
      by (simp add: hConfig_def algebra_simps)
  qed
qed

lemma Column_compress:
  assumes meas: "Column_measureChildren st r = (natSum, availCompr, numSprings)"
    and S: "0 < S" "S \<le> availCompr"
    and wf: "\<forall>c\<in>set (children r). \<not> obj_isSpring c \<longrightarrow> wellformed (hConfig st c)"
  shows "length (children (Column_compressChildren st S availCompr r)) = length (children r)"
    and "\<forall>i < length (children r). \<not> obj_isSpring (children r ! i) \<longrightarrow>
           obj_h (children (Column_compressChildren st S availCompr r) ! i) =
             max (min_c (hConfig st (children r ! i)))
               (nat_c (hConfig st (children r ! i)) -
                  (nat_c (hConfig st (children r ! i)) - min_c (hConfig st (children r ! i)))
                     / availCompr * S)"
    and "(\<Sum>c\<leftarrow>filter (\<lambda>c. \<not> obj_isSpring c) (children (Column_compressChildren st S availCompr r)).
            nat_c (hConfig st c) - obj_h c) = S"
    and "\<forall>c\<in>set (children (Column_compressChildren st S availCompr r)).
           \<not> obj_isSpring c \<longrightarrow> min_c (hConfig st c) \<le> obj_h c"
proof -
  show "length (children (Column_compressChildren st S availCompr r)) = length (children r)"
    by (simp add: Column_compress_children)
  show "\<forall>i < length (children r). \<not> obj_isSpring (children r ! i) \<longrightarrow>
           obj_h (children (Column_compressChildren st S availCompr r) ! i) =
             max (min_c (hConfig st (children r ! i)))
               (nat_c (hConfig st (children r ! i)) -
                  (nat_c (hConfig st (children r ! i)) - min_c (hConfig st (children r ! i)))
                     / availCompr * S)"
    by (simp add: Column_compress_children)
  have A: "availCompr = (\<Sum>c\<leftarrow>filter (\<lambda>c. \<not> obj_isSpring c) (children r).
          nat_c (hConfig st c) - min_c (hConfig st c))"
    using meas by (simp add: Column_measureChildren_eq)
  have wf': "\<forall>c\<in>set (children r). \<not> obj_isSpring c \<longrightarrow> min_c (hConfig st c) \<le> nat_c (hConfig st c)"
    using wf by (simp add: wellformed_def)
  have "(\<Sum>c\<leftarrow>filter (\<lambda>c. \<not> obj_isSpring c) (children (Column_compressChildren st S availCompr r)).
            nat_c (hConfig st c) - obj_h c) = availCompr * (S / availCompr)"
    unfolding Column_compress_children Column_compress_sum[OF wf' S] using A by simp
  also have "\<dots> = S" using S by simp
  finally show "(\<Sum>c\<leftarrow>filter (\<lambda>c. \<not> obj_isSpring c) (children (Column_compressChildren st S availCompr r)).
            nat_c (hConfig st c) - obj_h c) = S" .
  show "\<forall>c\<in>set (children (Column_compressChildren st S availCompr r)).
           \<not> obj_isSpring c \<longrightarrow> min_c (hConfig st c) \<le> obj_h c"
    by (auto simp: Column_compress_children hConfig_def)
qed

lemma Column_adjustChildren_eq:
  "Column_adjustChildren st r =
     r\<lparr>children := map (Column_adjusted_child st (obj_h r) (Column_measureChildren st r)) (children r)\<rparr>"
proof -
  obtain natSum availCompr numSprings where m: "Column_measureChildren st r = (natSum, availCompr, numSprings)"
    by (cases "Column_measureChildren st r") auto
  have id: "map (\<lambda>c. c) (children r) = children r" by simp
  consider (expand0) "obj_h r - natSum \<ge> 0" "numSprings = 0"
    | (expand) "obj_h r - natSum \<ge> 0" "numSprings \<noteq> 0"
    | (stuck) "\<not> obj_h r - natSum \<ge> 0" "availCompr = 0"
    | (compress) "\<not> obj_h r - natSum \<ge> 0" "availCompr \<noteq> 0"
    by blast
  then show ?thesis
  proof cases
    case expand0
    then have "map (Column_adjusted_child st (obj_h r) (natSum, availCompr, numSprings)) (children r) =
        children r"
      by (intro map_idI) (simp add: Column_adjusted_child_def)
    with expand0 show ?thesis
      by (simp add: Column_adjustChildren_def m Column_expandChildSprings_def)
  next
    case expand
    then show ?thesis
      by (simp add: Column_adjustChildren_def m Column_expandChildSprings_def Column_adjusted_child_def)
  next
    case stuck
    then show ?thesis
      by (simp add: Column_adjustChildren_def m Column_adjusted_child_def)
  next
    case compress
    then show ?thesis
      by (simp add: Column_adjustChildren_def m Column_compressChildren_def Column_adjusted_child_def
            Let_def hConfig_def)
  qed
qed

lemma Column_adjust_excess:
  assumes "Column_measureChildren st r = (natSum, availCompr, numSprings)" "obj_h r - natSum \<ge> 0"
  shows "Column_adjustChildren st r = Column_expandChildSprings (obj_h r - natSum) numSprings r"
  using assms by (simp add: Column_adjustChildren_def)

lemma Column_adjust_stuck:
  assumes "Column_measureChildren st r = (natSum, availCompr, numSprings)" "obj_h r - natSum < 0"
    "availCompr = 0"
  shows "Column_adjustChildren st r =
     r\<lparr>children := map (\<lambda>child. if obj_isSpring child then child\<lparr>obj_h := 0\<rparr> else child) (children r)\<rparr>"
  using assms by (simp add: Column_adjustChildren_def)

lemma Column_widths_loop_eq:
  "Column_widths_loop st cs m =
     (map (\<lambda>c. c\<lparr>obj_w := nat_c (wConfig st c)\<rparr>) cs,
      foldl max m (map (\<lambda>c. nat_c (wConfig st c)) cs))"
  by (induction cs arbitrary: m) (simp_all add: Let_def max_def)

lemma Column_stack_length [simp]: "length (Column_stack_loop H j cs x) = length cs"
  by (induction cs arbitrary: x) (simp_all add: Let_def)

lemma Column_stack_nth:
  "i < length cs \<Longrightarrow>
     Column_stack_loop H j cs x ! i =
       (cs ! i)\<lparr>obj_y := x + sum_list (map obj_h (take i cs)),
                 obj_x := (if j = ''left'' then 0
                           else if j = ''center'' then H / 2 - obj_w (cs ! i) / 2
                           else if j = ''right'' then H - obj_w (cs ! i)
                           else 0)\<rparr>"
proof (induction cs arbitrary: x i)
  case Nil
  then show ?case by simp
next
  case (Cons c cs)
  show ?case
  proof (cases i)
    case 0
    then show ?thesis by (simp add: Let_def)
  next
    case (Suc k)
    with Cons.prems have "k < length cs" by simp
    from Cons.IH[OF this] Suc show ?thesis by (simp add: Let_def add.assoc)
  qed
qed

lemma Column_adjusted_child_refs [simp]:
  "obj_wConfig (Column_adjusted_child st W m c) = obj_wConfig c"
  "obj_hConfig (Column_adjusted_child st W m c) = obj_hConfig c"
  "obj_isSpring (Column_adjusted_child st W m c) = obj_isSpring c"
  "obj_w (Column_adjusted_child st W m c) = obj_w c"
  "obj_y (Column_adjusted_child st W m c) = obj_y c"
  "obj_x (Column_adjusted_child st W m c) = obj_x c"
  by (cases m; simp add: Column_adjusted_child_def)+

lemma Column_completeLocalLayout_eq:
  assumes "children r \<noteq> []"
  shows "Column_completeLocalLayout (st, r) =
     (st\<lparr>cells := (cells st)(obj_wConfig r := (cells st (obj_wConfig r))
              \<lparr>nat_c := foldl max 0 (map (\<lambda>c. nat_c (wConfig st c)) (children r))\<rparr>)\<rparr>,
      r\<lparr>obj_w := foldl max 0 (map (\<lambda>c. nat_c (wConfig st c)) (children r)),
        children := Column_stack_loop (foldl max 0 (map (\<lambda>c. nat_c (wConfig st c)) (children r)))
           (wJustification r)
           (map (\<lambda>c. (Column_adjusted_child st (obj_h r) (Column_measureChildren st r) c)
                   \<lparr>obj_w := nat_c (wConfig st c)\<rparr>) (children r)) 0\<rparr>)"
  using assms
  by (simp add: Column_completeLocalLayout_def Column_adjustChildren_eq Column_widths_loop_eq Let_def
        o_def wConfig_def)

lemma Column_placement:
  assumes ne: "children r \<noteq> []" and res: "Column_completeLocalLayout (st, r) = (st', r')"
  shows "length (children r') = length (children r)"
    and "obj_y (children r' ! 0) = 0"
    and "\<forall>i. Suc i < length (children r') \<longrightarrow>
           obj_y (children r' ! Suc i) = obj_y (children r' ! i) + obj_h (children r' ! i)"
    and "\<forall>i < length (children r').
           obj_x (children r' ! i) =
             (if wJustification r = ''left'' then 0
              else if wJustification r = ''center'' then (obj_w r' - obj_w (children r' ! i)) / 2
              else if wJustification r = ''right'' then obj_w r' - obj_w (children r' ! i)
              else 0)"
    and "\<forall>i < length (children r'). 0 \<le> obj_x (children r' ! i) \<and>
           obj_x (children r' ! i) + obj_w (children r' ! i) \<le> obj_w r'"
    and "\<forall>i < length (children r). obj_w (children r' ! i) = nat_c (wConfig st (children r ! i))"
    and "obj_w r' = foldl max 0 (map (\<lambda>c. nat_c (wConfig st c)) (children r))"
proof -
  let ?H = "foldl max 0 (map (\<lambda>c. nat_c (wConfig st c)) (children r))"
  let ?cs = "map (\<lambda>c. (Column_adjusted_child st (obj_h r) (Column_measureChildren st r) c)
                   \<lparr>obj_w := nat_c (wConfig st c)\<rparr>) (children r)"
  from res have r': "r' = r\<lparr>obj_w := ?H, children := Column_stack_loop ?H (wJustification r) ?cs 0\<rparr>"
    unfolding Column_completeLocalLayout_eq[OF ne] by simp
  show len: "length (children r') = length (children r)" by (simp add: r')
  show "obj_w r' = ?H" by (simp add: r')
  from ne show "obj_y (children r' ! 0) = 0" by (simp add: r' Column_stack_nth)
  show "\<forall>i. Suc i < length (children r') \<longrightarrow>
           obj_y (children r' ! Suc i) = obj_y (children r' ! i) + obj_h (children r' ! i)"
    by (simp add: r' Column_stack_nth take_Suc_conv_app_nth)
  show "\<forall>i < length (children r').
           obj_x (children r' ! i) =
             (if wJustification r = ''left'' then 0
              else if wJustification r = ''center'' then (obj_w r' - obj_w (children r' ! i)) / 2
              else if wJustification r = ''right'' then obj_w r' - obj_w (children r' ! i)
              else 0)"
    by (simp add: r' Column_stack_nth diff_divide_distrib)
  show "\<forall>i < length (children r). obj_w (children r' ! i) = nat_c (wConfig st (children r ! i))"
    by (simp add: r' Column_stack_nth)
  show "\<forall>i < length (children r'). 0 \<le> obj_x (children r' ! i) \<and>
           obj_x (children r' ! i) + obj_w (children r' ! i) \<le> obj_w r'"
  proof (intro allI impI)
    fix i assume "i < length (children r')"
    then have i: "i < length (children r)" using len by simp
    then have "nat_c (wConfig st (children r ! i)) \<in> set (map (\<lambda>c. nat_c (wConfig st c)) (children r))"
      by simp
    then have le: "nat_c (wConfig st (children r ! i)) \<le> ?H" by (rule foldl_max_ge(2))
    from i le show "0 \<le> obj_x (children r' ! i) \<and>
           obj_x (children r' ! i) + obj_w (children r' ! i) \<le> obj_w r'"
      by (simp add: r' Column_stack_nth field_simps)
  qed
qed

lemma Column_sizing_loop_eq:
  "Column_sizing_loop st cs (a, b, c, d, e, f) =
     (foldl max a (map (\<lambda>x. min_c (wConfig st x)) cs),
      foldl max b (map (\<lambda>x. nat_c (wConfig st x)) cs),
      foldl max c (map (\<lambda>x. max_c (wConfig st x)) cs),
      d + (\<Sum>x\<leftarrow>cs. min_c (hConfig st x)),
      e + (\<Sum>x\<leftarrow>cs. nat_c (hConfig st x)),
      f + (\<Sum>x\<leftarrow>cs. max_c (hConfig st x)))"
  by (induction cs arbitrary: a b c d e f) simp_all

lemma Column_doLocalSizing_eq:
  "Column_doLocalSizing (st, r) =
     (st\<lparr>cells := (cells st)
           (next_ref st :=
              \<lparr>nat_c = (\<Sum>x\<leftarrow>children r. nat_c (hConfig st x)),
               min_c = (\<Sum>x\<leftarrow>children r. min_c (hConfig st x)),
               max_c = (\<Sum>x\<leftarrow>children r. max_c (hConfig st x))\<rparr>,
            Suc (next_ref st) :=
              \<lparr>nat_c = foldl max 0 (map (\<lambda>x. nat_c (wConfig st x)) (children r)),
               min_c = foldl max 0 (map (\<lambda>x. min_c (wConfig st x)) (children r)),
               max_c = foldl max 0 (map (\<lambda>x. max_c (wConfig st x)) (children r))\<rparr>),
         next_ref := Suc (Suc (next_ref st))\<rparr>,
      r\<lparr>obj_hConfig := next_ref st, obj_wConfig := Suc (next_ref st)\<rparr>)"
  by (simp add: Column_doLocalSizing_def Column_sizing_loop_eq new_SizeConfig_def)

lemma Column_sizing:
  assumes res: "Column_doLocalSizing (st, r) = (st', r')"
    and wf: "\<forall>c\<in>set (children r). wellformed (hConfig st c) \<and> wellformed (wConfig st c)"
  shows "hConfig st' r' =
           \<lparr>nat_c = (\<Sum>c\<leftarrow>children r. nat_c (hConfig st c)),
            min_c = (\<Sum>c\<leftarrow>children r. min_c (hConfig st c)),
            max_c = (\<Sum>c\<leftarrow>children r. max_c (hConfig st c))\<rparr>"
    and "wConfig st' r' =
           (if children r = [] then \<lparr>nat_c = 0, min_c = 0, max_c = 0\<rparr>
            else \<lparr>nat_c = Max ((\<lambda>c. nat_c (wConfig st c)) ` set (children r)),
                  min_c = Max ((\<lambda>c. min_c (wConfig st c)) ` set (children r)),
                  max_c = Max ((\<lambda>c. max_c (wConfig st c)) ` set (children r))\<rparr>)"
proof -
  from res show "hConfig st' r' =
           \<lparr>nat_c = (\<Sum>c\<leftarrow>children r. nat_c (hConfig st c)),
            min_c = (\<Sum>c\<leftarrow>children r. min_c (hConfig st c)),
            max_c = (\<Sum>c\<leftarrow>children r. max_c (hConfig st c))\<rparr>"
    unfolding Column_doLocalSizing_eq by (auto simp: hConfig_def)
  have nn: "\<forall>x\<in>set (map (\<lambda>c. nat_c (wConfig st c)) (children r)). 0 \<le> x"
    "\<forall>x\<in>set (map (\<lambda>c. min_c (wConfig st c)) (children r)). 0 \<le> x"
    "\<forall>x\<in>set (map (\<lambda>c. max_c (wConfig st c)) (children r)). 0 \<le> x"
    using wf by (auto simp: wellformed_def)
  show "wConfig st' r' =
           (if children r = [] then \<lparr>nat_c = 0, min_c = 0, max_c = 0\<rparr>
            else \<lparr>nat_c = Max ((\<lambda>c. nat_c (wConfig st c)) ` set (children r)),
                  min_c = Max ((\<lambda>c. min_c (wConfig st c)) ` set (children r)),
                  max_c = Max ((\<lambda>c. max_c (wConfig st c)) ` set (children r))\<rparr>)"
  proof (cases "children r = []")
    case True
    with res show ?thesis unfolding Column_doLocalSizing_eq by (auto simp: wConfig_def)
  next
    case False
    then have ne: "map (\<lambda>c. nat_c (wConfig st c)) (children r) \<noteq> []"
      "map (\<lambda>c. min_c (wConfig st c)) (children r) \<noteq> []"
      "map (\<lambda>c. max_c (wConfig st c)) (children r) \<noteq> []" by simp_all
    have "wConfig st' r' =
        \<lparr>nat_c = foldl max 0 (map (\<lambda>x. nat_c (wConfig st x)) (children r)),
         min_c = foldl max 0 (map (\<lambda>x. min_c (wConfig st x)) (children r)),
         max_c = foldl max 0 (map (\<lambda>x. max_c (wConfig st x)) (children r))\<rparr>"
      using res unfolding Column_doLocalSizing_eq by (auto simp: wConfig_def)
    then show ?thesis
      using False
      by (simp only: foldl_max_nonneg[OF ne(1) nn(1)] foldl_max_nonneg[OF ne(2) nn(2)]
            foldl_max_nonneg[OF ne(3) nn(3)] set_map if_False)
  qed
qed

lemma Column_measure_loop_cong:
  assumes "list_all2 (\<lambda>a b. obj_isSpring a = obj_isSpring b \<and> hConfig st2 a = hConfig st b) cs2 cs"
  shows "Column_measure_loop st2 cs2 acc = Column_measure_loop st cs acc"
  using assms
proof (induction cs2 cs arbitrary: acc rule: list_all2_induct)
  case Nil
  then show ?case by simp
next
  case (Cons a cs2 b cs)
  then show ?case by (cases acc) simp
qed

lemma Column_adjusted_child_fix:
  assumes "obj_isSpring c' = obj_isSpring c" "hConfig st2 c' = hConfig st c"
    "obj_h c' = obj_h (Column_adjusted_child st W m c)"
  shows "Column_adjusted_child st2 W m c' = c'"
  using assms by (cases m) (auto simp: Column_adjusted_child_def split: if_splits)

lemma Column_stack_idem:
  "Column_stack_loop H j (Column_stack_loop H j cs 0) 0 = Column_stack_loop H j cs 0"
proof (rule nth_equalityI)
  show "length (Column_stack_loop H j (Column_stack_loop H j cs 0) 0) = length (Column_stack_loop H j cs 0)"
    by simp
next
  fix i assume "i < length (Column_stack_loop H j (Column_stack_loop H j cs 0) 0)"
  then have i: "i < length cs" by simp
  have "map obj_h (take i (Column_stack_loop H j cs 0)) = map obj_h (take i cs)"
    using i by (intro nth_equalityI) (simp_all add: Column_stack_nth)
  then show "Column_stack_loop H j (Column_stack_loop H j cs 0) 0 ! i = Column_stack_loop H j cs 0 ! i"
    using i by (simp add: Column_stack_nth)
qed

lemma Column_pass_settled:
  assumes alloc: "allocated st (children r)"
    and ne: "children r \<noteq> []"
    and fix_h: "\<forall>c\<in>set (children r). Column_adjusted_child st (obj_h r) (Column_measureChildren st r) c = c"
    and fix_w: "\<forall>c\<in>set (children r). obj_w c = nat_c (wConfig st c)"
    and fix_xy: "Column_stack_loop (obj_w r) (wJustification r) (children r) 0 = children r"
    and H: "obj_w r = foldl max 0 (map (\<lambda>c. nat_c (wConfig st c)) (children r))"
    and hc: "wConfig st r =
              \<lparr>nat_c = foldl max 0 (map (\<lambda>x. nat_c (wConfig st x)) (children r)),
               min_c = foldl max 0 (map (\<lambda>x. min_c (wConfig st x)) (children r)),
               max_c = foldl max 0 (map (\<lambda>x. max_c (wConfig st x)) (children r))\<rparr>"
    and wc: "hConfig st r =
              \<lparr>nat_c = (\<Sum>x\<leftarrow>children r. nat_c (hConfig st x)),
               min_c = (\<Sum>x\<leftarrow>children r. min_c (hConfig st x)),
               max_c = (\<Sum>x\<leftarrow>children r. max_c (hConfig st x))\<rparr>"
  shows "Column_observe (Column_layout_pass (st, r)) = Column_observe (st, r)"
proof -
  obtain st1 r1 where s1: "Column_doLocalSizing (st, r) = (st1, r1)" by force
  have r1: "r1 = r\<lparr>obj_hConfig := next_ref st, obj_wConfig := Suc (next_ref st)\<rparr>"
    and st1_old: "\<And>a. a < next_ref st \<Longrightarrow> cells st1 a = cells st a"
    and st1_w: "cells st1 (Suc (next_ref st)) = wConfig st r"
    and st1_h: "cells st1 (next_ref st) = hConfig st r"
    using s1 unfolding Column_doLocalSizing_eq hc wc by auto
  have agree: "\<And>c. c \<in> set (children r) \<Longrightarrow> hConfig st1 c = hConfig st c \<and> wConfig st1 c = wConfig st c"
    using alloc st1_old by (simp add: allocated_def hConfig_def wConfig_def)
  have ch1: "children r1 = children r" "obj_h r1 = obj_h r" by (simp_all add: r1)
  have m1: "Column_measureChildren st1 r1 = Column_measureChildren st r"
    unfolding Column_measureChildren_def ch1
    by (rule Column_measure_loop_cong) (simp add: list_all2_same agree)
  have nat1: "map (\<lambda>c. nat_c (wConfig st1 c)) (children r) = map (\<lambda>c. nat_c (wConfig st c)) (children r)"
    by (simp add: agree)
  have L: "map (\<lambda>c. (Column_adjusted_child st1 (obj_h r) (Column_measureChildren st r) c)
                   \<lparr>obj_w := nat_c (wConfig st1 c)\<rparr>) (children r) = children r"
  proof (rule map_idI)
    fix c assume c: "c \<in> set (children r)"
    have "Column_adjusted_child st1 (obj_h r) (Column_measureChildren st r) c = c"
      by (rule Column_adjusted_child_fix[where c = c and st = st]) (simp_all add: agree c fix_h)
    with c fix_w agree show "(Column_adjusted_child st1 (obj_h r) (Column_measureChildren st r) c)
                   \<lparr>obj_w := nat_c (wConfig st1 c)\<rparr> = c" by simp
  qed
  have ne1: "children r1 \<noteq> []" using ne ch1 by simp
  define st2 where
    "st2 = st1\<lparr>cells := (cells st1)
               (Suc (next_ref st) := (cells st1 (Suc (next_ref st)))\<lparr>nat_c := obj_w r\<rparr>)\<rparr>"
  define r2 where "r2 = r1\<lparr>obj_w := obj_w r, children := children r\<rparr>"
  have s2: "Column_completeLocalLayout (st1, r1) = (st2, r2)"
    unfolding Column_completeLocalLayout_eq[OF ne1] ch1 m1 nat1 L st2_def r2_def
    by (simp add: H[symmetric] fix_xy r1)
  note st2 = st2_def and r2 = r2_def
  have "(cells st1 (Suc (next_ref st)))\<lparr>nat_c := obj_w r\<rparr> = wConfig st r"
    unfolding st1_w by (simp add: hc H)
  then have st2_w: "cells st2 (Suc (next_ref st)) = wConfig st r" by (simp add: st2)
  have st2_h: "cells st2 (next_ref st) = hConfig st r" by (simp add: st2 st1_h)
  have agree2: "\<And>c. c \<in> set (children r) \<Longrightarrow> hConfig st2 c = hConfig st c \<and> wConfig st2 c = wConfig st c"
    using alloc st1_old by (auto simp: allocated_def hConfig_def wConfig_def st2)
  have own: "hConfig st2 r2 = hConfig st r" "wConfig st2 r2 = wConfig st r"
    using st2_w st2_h by (simp_all add: hConfig_def wConfig_def r2 r1)
  have kids: "map (observe_obj st2) (children r) = map (observe_obj st) (children r)"
    by (rule map_cong[OF refl]) (simp add: observe_obj_def agree2)
  have "observe_obj st2 r2 = observe_obj st r"
    by (simp add: observe_obj_def own) (simp add: r2 r1)
  moreover have "children r2 = children r" "wJustification r2 = wJustification r"
    by (simp_all add: r2 r1)
  ultimately have "Column_observe (st2, r2) = Column_observe (st, r)"
    unfolding Column_observe_def by (simp only: prod.case kids)
  then show ?thesis by (simp add: Column_layout_pass_def s1 s2)
qed

lemma Column_pass_settles:
  assumes alloc: "allocated st (children r)"
    and ne: "children r \<noteq> []"
    and pass: "Column_layout_pass (st, r) = (st', r')"
  shows "allocated st' (children r')"
    and "children r' \<noteq> []"
    and "\<forall>c\<in>set (children r'). Column_adjusted_child st' (obj_h r') (Column_measureChildren st' r') c = c"
    and "\<forall>c\<in>set (children r'). obj_w c = nat_c (wConfig st' c)"
    and "Column_stack_loop (obj_w r') (wJustification r') (children r') 0 = children r'"
    and "obj_w r' = foldl max 0 (map (\<lambda>c. nat_c (wConfig st' c)) (children r'))"
    and "wConfig st' r' =
              \<lparr>nat_c = foldl max 0 (map (\<lambda>x. nat_c (wConfig st' x)) (children r')),
               min_c = foldl max 0 (map (\<lambda>x. min_c (wConfig st' x)) (children r')),
               max_c = foldl max 0 (map (\<lambda>x. max_c (wConfig st' x)) (children r'))\<rparr>"
    and "hConfig st' r' =
              \<lparr>nat_c = (\<Sum>x\<leftarrow>children r'. nat_c (hConfig st' x)),
               min_c = (\<Sum>x\<leftarrow>children r'. min_c (hConfig st' x)),
               max_c = (\<Sum>x\<leftarrow>children r'. max_c (hConfig st' x))\<rparr>"
proof -
  define n where "n = next_ref st"
  define W where "W = obj_h r"
  define j where "j = wJustification r"
  define m where "m = Column_measureChildren st r"
  define H where "H = foldl max 0 (map (\<lambda>c. nat_c (wConfig st c)) (children r))"
  define Hc where "Hc =
     \<lparr>nat_c = foldl max 0 (map (\<lambda>x. nat_c (wConfig st x)) (children r)),
      min_c = foldl max 0 (map (\<lambda>x. min_c (wConfig st x)) (children r)),
      max_c = foldl max 0 (map (\<lambda>x. max_c (wConfig st x)) (children r))\<rparr>"
  define Wc where "Wc =
     \<lparr>nat_c = (\<Sum>x\<leftarrow>children r. nat_c (hConfig st x)),
      min_c = (\<Sum>x\<leftarrow>children r. min_c (hConfig st x)),
      max_c = (\<Sum>x\<leftarrow>children r. max_c (hConfig st x))\<rparr>"
  define st1 where "st1 = st\<lparr>cells := (cells st)(n := Wc, Suc n := Hc), next_ref := Suc (Suc n)\<rparr>"
  define r1 where "r1 = r\<lparr>obj_hConfig := n, obj_wConfig := Suc n\<rparr>"
  have s1: "Column_doLocalSizing (st, r) = (st1, r1)"
    by (simp add: Column_doLocalSizing_eq st1_def r1_def Hc_def Wc_def n_def)
  have agree: "\<And>c. c \<in> set (children r) \<Longrightarrow> hConfig st1 c = hConfig st c \<and> wConfig st1 c = wConfig st c"
    using alloc by (auto simp: allocated_def hConfig_def wConfig_def st1_def n_def)
  have ch1: "children r1 = children r" "obj_h r1 = W" "wJustification r1 = j"
    by (simp_all add: r1_def W_def j_def)
  have m1: "Column_measureChildren st1 r1 = m"
    unfolding Column_measureChildren_def ch1 m_def
    by (rule Column_measure_loop_cong) (simp add: list_all2_same agree)
  have nat1: "map (\<lambda>c. nat_c (wConfig st1 c)) (children r) = map (\<lambda>c. nat_c (wConfig st c)) (children r)"
    by (simp add: agree)
  define L where "L = map (\<lambda>c. (Column_adjusted_child st W m c)\<lparr>obj_w := nat_c (wConfig st c)\<rparr>) (children r)"
  have L1: "map (\<lambda>c. (Column_adjusted_child st1 W m c)\<lparr>obj_w := nat_c (wConfig st1 c)\<rparr>) (children r) = L"
    unfolding L_def
  proof (rule map_cong[OF refl])
    fix c assume c: "c \<in> set (children r)"
    then have "Column_adjusted_child st1 W m c = Column_adjusted_child st W m c"
      using agree[OF c] by (cases m) (simp add: Column_adjusted_child_def)
    with agree[OF c] show "(Column_adjusted_child st1 W m c)\<lparr>obj_w := nat_c (wConfig st1 c)\<rparr> =
        (Column_adjusted_child st W m c)\<lparr>obj_w := nat_c (wConfig st c)\<rparr>" by simp
  qed
  have ne1: "children r1 \<noteq> []" using ne ch1 by simp
  have st': "st' = st1\<lparr>cells := (cells st1)(Suc n := (cells st1 (Suc n))\<lparr>nat_c := H\<rparr>)\<rparr>"
    and r': "r' = r1\<lparr>obj_w := H, children := Column_stack_loop H j L 0\<rparr>"
    using pass unfolding Column_layout_pass_def s1 Column_completeLocalLayout_eq[OF ne1] ch1 m1 nat1 L1
    by (simp_all add: H_def r1_def)
  have cells': "cells st' (Suc n) = Hc" "cells st' n = Wc" "\<And>a. a < n \<Longrightarrow> cells st' a = cells st a"
    by (simp_all add: st' st1_def Hc_def H_def)
  have own: "obj_w r' = H" "obj_h r' = W" "wJustification r' = j" "wConfig st' r' = Hc"
    "hConfig st' r' = Wc" "children r' = Column_stack_loop H j L 0"
    by (simp_all add: r' r1_def W_def j_def wConfig_def hConfig_def cells')
  have rel: "list_all2 (\<lambda>c' c. obj_isSpring c' = obj_isSpring c \<and> hConfig st' c' = hConfig st c \<and>
                 wConfig st' c' = wConfig st c \<and> obj_h c' = obj_h (Column_adjusted_child st W m c) \<and>
                 obj_w c' = nat_c (wConfig st c) \<and> obj_hConfig c' < n \<and> obj_wConfig c' < n)
               (children r') (children r)"
    unfolding own list_all2_conv_all_nth
  proof (intro conjI allI impI)
    show "length (Column_stack_loop H j L 0) = length (children r)" by (simp add: L_def)
  next
    fix i assume "i < length (Column_stack_loop H j L 0)"
    then have i: "i < length (children r)" by (simp add: L_def)
    then have "children r ! i \<in> set (children r)" by simp
    then have a: "obj_hConfig (children r ! i) < n" "obj_wConfig (children r ! i) < n"
      using alloc by (simp_all add: allocated_def n_def)
    from i have Li: "i < length L" by (simp add: L_def)
    from i a cells'(3) show
      "obj_isSpring (Column_stack_loop H j L 0 ! i) = obj_isSpring (children r ! i)"
      "hConfig st' (Column_stack_loop H j L 0 ! i) = hConfig st (children r ! i)"
      "wConfig st' (Column_stack_loop H j L 0 ! i) = wConfig st (children r ! i)"
      "obj_h (Column_stack_loop H j L 0 ! i) = obj_h (Column_adjusted_child st W m (children r ! i))"
      "obj_w (Column_stack_loop H j L 0 ! i) = nat_c (wConfig st (children r ! i))"
      "obj_hConfig (Column_stack_loop H j L 0 ! i) < n"
      "obj_wConfig (Column_stack_loop H j L 0 ! i) < n"
      by (simp_all add: Column_stack_nth[OF Li] hConfig_def wConfig_def)
        (simp_all add: L_def wConfig_def)
  qed
  have maps:
    "map (\<lambda>x. nat_c (wConfig st' x)) (children r') = map (\<lambda>x. nat_c (wConfig st x)) (children r)"
    "map (\<lambda>x. min_c (wConfig st' x)) (children r') = map (\<lambda>x. min_c (wConfig st x)) (children r)"
    "map (\<lambda>x. max_c (wConfig st' x)) (children r') = map (\<lambda>x. max_c (wConfig st x)) (children r)"
    "map (\<lambda>x. nat_c (hConfig st' x)) (children r') = map (\<lambda>x. nat_c (hConfig st x)) (children r)"
    "map (\<lambda>x. min_c (hConfig st' x)) (children r') = map (\<lambda>x. min_c (hConfig st x)) (children r)"
    "map (\<lambda>x. max_c (hConfig st' x)) (children r') = map (\<lambda>x. max_c (hConfig st x)) (children r)"
    by (rule list_all2_map_eq[OF rel]; simp)+
  have m': "Column_measureChildren st' r' = m"
    unfolding Column_measureChildren_def m_def
    by (rule Column_measure_loop_cong) (rule list_all2_mono[OF rel], simp)
  have nr: "next_ref st' = Suc (Suc n)" by (simp add: st' st1_def)
  show "allocated st' (children r')"
    unfolding allocated_def nr
  proof
    fix c' assume "c' \<in> set (children r')"
    then obtain i where i: "i < length (children r')" "c' = children r' ! i"
      by (auto simp: in_set_conv_nth)
    with rel have "obj_hConfig c' < n" "obj_wConfig c' < n"
      by (simp_all add: list_all2_conv_all_nth)
    then show "obj_wConfig c' < Suc (Suc n) \<and> obj_hConfig c' < Suc (Suc n)" by simp
  qed
  have "length (children r') = length (children r)" by (simp add: own L_def)
  with ne show "children r' \<noteq> []" by auto
  show "\<forall>c\<in>set (children r'). Column_adjusted_child st' (obj_h r') (Column_measureChildren st' r') c = c"
    unfolding m' own(2)
  proof
    fix c' assume "c' \<in> set (children r')"
    then obtain i where i: "i < length (children r')" "c' = children r' ! i"
      by (auto simp: in_set_conv_nth)
    with rel have "obj_isSpring c' = obj_isSpring (children r ! i)"
      "hConfig st' c' = hConfig st (children r ! i)"
      "obj_h c' = obj_h (Column_adjusted_child st W m (children r ! i))"
      by (simp_all add: list_all2_conv_all_nth)
    then show "Column_adjusted_child st' W m c' = c'" by (rule Column_adjusted_child_fix)
  qed
  show "\<forall>c\<in>set (children r'). obj_w c = nat_c (wConfig st' c)"
    using rel by (auto simp: list_all2_conv_all_nth in_set_conv_nth)
  show "Column_stack_loop (obj_w r') (wJustification r') (children r') 0 = children r'"
    unfolding own by (rule Column_stack_idem)
  show "obj_w r' = foldl max 0 (map (\<lambda>c. nat_c (wConfig st' c)) (children r'))"
    unfolding maps own(1) H_def ..
  show "wConfig st' r' =
              \<lparr>nat_c = foldl max 0 (map (\<lambda>x. nat_c (wConfig st' x)) (children r')),
               min_c = foldl max 0 (map (\<lambda>x. min_c (wConfig st' x)) (children r')),
               max_c = foldl max 0 (map (\<lambda>x. max_c (wConfig st' x)) (children r'))\<rparr>"
    unfolding maps own(4) Hc_def ..
  show "hConfig st' r' =
              \<lparr>nat_c = (\<Sum>x\<leftarrow>children r'. nat_c (hConfig st' x)),
               min_c = (\<Sum>x\<leftarrow>children r'. min_c (hConfig st' x)),
               max_c = (\<Sum>x\<leftarrow>children r'. max_c (hConfig st' x))\<rparr>"
    unfolding maps own(5) Wc_def ..
qed

lemma Column_pass_idem:
  assumes alloc: "allocated st (children r)"
  shows "Column_observe (Column_layout_pass (Column_layout_pass (st, r))) = Column_observe (Column_layout_pass (st, r))"
proof (cases "children r = []")
  case True
  then show ?thesis
    by (simp add: Column_layout_pass_def Column_doLocalSizing_eq Column_completeLocalLayout_def
          Column_observe_def observe_obj_def hConfig_def wConfig_def)
next
  case False
  obtain st' r' where p: "Column_layout_pass (st, r) = (st', r')" by force
  show ?thesis
    unfolding p by (rule Column_pass_settled[OF Column_pass_settles[OF alloc False p]])
qed

lemma Column_adjust_keeps:
  assumes "Column_measureChildren st r = (natSum, availCompr, numSprings)" "obj_h r - natSum \<ge> 0"
  shows "length (children (Column_adjustChildren st r)) = length (children r)"
    and "\<forall>i < length (children r). \<not> obj_isSpring (children r ! i) \<longrightarrow>
           children (Column_adjustChildren st r) ! i = children r ! i"
  using assms by (simp_all add: Column_adjustChildren_eq Column_adjusted_child_def)

lemma Column_adjust_zeroes:
  assumes "Column_measureChildren st r = (natSum, availCompr, numSprings)" "obj_h r - natSum < 0"
    "availCompr = 0"
  shows "length (children (Column_adjustChildren st r)) = length (children r)"
    and "\<forall>i < length (children r).
           (obj_isSpring (children r ! i) \<longrightarrow>
              children (Column_adjustChildren st r) ! i = (children r ! i)\<lparr>obj_h := 0\<rparr>) \<and>
           (\<not> obj_isSpring (children r ! i) \<longrightarrow>
              children (Column_adjustChildren st r) ! i = children r ! i)"
  using assms by (simp_all add: Column_adjustChildren_eq Column_adjusted_child_def)

lemma Column_adjust_frame:
  "Column_adjustChildren st r = r\<lparr>children := children (Column_adjustChildren st r)\<rparr>"
  by (simp add: Column_adjustChildren_eq)

lemma Column_doLocalSizing_store:
  assumes "Column_doLocalSizing (st, r) = (st', r')"
  shows "\<forall>a < next_ref st. cells st' a = cells st a"
    and "next_ref st \<le> obj_hConfig r' \<and> obj_hConfig r' < next_ref st'"
    and "next_ref st \<le> obj_wConfig r' \<and> obj_wConfig r' < next_ref st'"
  using assms unfolding Column_doLocalSizing_eq by auto

lemma Column_set_h_store:
  assumes "Column_set_h v (st, r) = (st', r')"
  shows "\<forall>a < next_ref st. cells st' a = cells st a"
    and "v \<noteq> obj_h r \<longrightarrow> next_ref st \<le> obj_hConfig r' \<and> obj_hConfig r' < next_ref st' \<and>
           hConfig st' r' = \<lparr>nat_c = v, min_c = v, max_c = v\<rparr>"
  using assms by (auto simp: Column_set_h_def SizeConfig_fixed_def new_SizeConfig_def hConfig_def
      split: if_splits)

lemma Column_completeLocalLayout_store:
  assumes res: "Column_completeLocalLayout (st, r) = (st', r')"
  shows "\<forall>a. a \<noteq> obj_wConfig r \<longrightarrow> cells st' a = cells st a"
    and "min_c (cells st' (obj_wConfig r)) = min_c (cells st (obj_wConfig r))"
    and "max_c (cells st' (obj_wConfig r)) = max_c (cells st (obj_wConfig r))"
    and "children r \<noteq> [] \<longrightarrow> nat_c (cells st' (obj_wConfig r)) = obj_w r'"
    and "obj_wConfig r' = obj_wConfig r \<and> obj_hConfig r' = obj_hConfig r \<and> next_ref st' = next_ref st"
proof -
  have "(\<forall>a. a \<noteq> obj_wConfig r \<longrightarrow> cells st' a = cells st a) \<and>
    min_c (cells st' (obj_wConfig r)) = min_c (cells st (obj_wConfig r)) \<and>
    max_c (cells st' (obj_wConfig r)) = max_c (cells st (obj_wConfig r)) \<and>
    (children r \<noteq> [] \<longrightarrow> nat_c (cells st' (obj_wConfig r)) = obj_w r') \<and>
    obj_wConfig r' = obj_wConfig r \<and> obj_hConfig r' = obj_hConfig r \<and> next_ref st' = next_ref st"
  proof (cases "children r = []")
    case True
    with res show ?thesis by (auto simp: Column_completeLocalLayout_def)
  next
    case False
    from res show ?thesis unfolding Column_completeLocalLayout_eq[OF False] by auto
  qed
  then show "\<forall>a. a \<noteq> obj_wConfig r \<longrightarrow> cells st' a = cells st a"
    "min_c (cells st' (obj_wConfig r)) = min_c (cells st (obj_wConfig r))"
    "max_c (cells st' (obj_wConfig r)) = max_c (cells st (obj_wConfig r))"
    "children r \<noteq> [] \<longrightarrow> nat_c (cells st' (obj_wConfig r)) = obj_w r'"
    "obj_wConfig r' = obj_wConfig r \<and> obj_hConfig r' = obj_hConfig r \<and> next_ref st' = next_ref st"
    by simp_all
qed

lemma Column_completeLocalLayout_child_refs:
  assumes ne: "children r \<noteq> []" and res: "Column_completeLocalLayout (st, r) = (st', r')"
  shows "\<forall>i < length (children r).
           obj_isSpring (children r' ! i) = obj_isSpring (children r ! i) \<and>
           obj_wConfig (children r' ! i) = obj_wConfig (children r ! i) \<and>
           obj_hConfig (children r' ! i) = obj_hConfig (children r ! i)"
  using res unfolding Column_completeLocalLayout_eq[OF ne] by (auto simp: Column_stack_nth)

lemma Column_shrinkwrap:
  assumes ne: "children r \<noteq> []" and res: "Column_completeLocalLayout (st, r) = (st', r')"
    and nn: "\<forall>c\<in>set (children r). 0 \<le> nat_c (wConfig st c)"
  shows "obj_w r' = Max ((\<lambda>c. nat_c (wConfig st c)) ` set (children r))"
proof -
  have "map (\<lambda>c. nat_c (wConfig st c)) (children r) \<noteq> []" using ne by simp
  moreover have "\<forall>x\<in>set (map (\<lambda>c. nat_c (wConfig st c)) (children r)). 0 \<le> x"
    using nn by simp
  ultimately have "foldl max 0 (map (\<lambda>c. nat_c (wConfig st c)) (children r)) =
      Max (set (map (\<lambda>c. nat_c (wConfig st c)) (children r)))"
    by (rule foldl_max_nonneg)
  with Column_placement(7)[OF ne res] show ?thesis by simp
qed

lemma Column_children_natural_after:
  assumes ne: "children r \<noteq> []" and res: "Column_completeLocalLayout (st, r) = (st', r')"
    and sep: "\<forall>c\<in>set (children r). obj_wConfig c \<noteq> obj_wConfig r"
  shows "\<forall>i < length (children r'). obj_w (children r' ! i) = nat_c (wConfig st' (children r' ! i))"
proof (intro allI impI)
  fix i assume "i < length (children r')"
  then have i: "i < length (children r)" using Column_placement(1)[OF ne res] by simp
  then have "children r ! i \<in> set (children r)" by simp
  with sep have "obj_wConfig (children r ! i) \<noteq> obj_wConfig r" by simp
  moreover have "obj_wConfig (children r' ! i) = obj_wConfig (children r ! i)"
    using Column_completeLocalLayout_child_refs[OF ne res] i by simp
  ultimately have "wConfig st' (children r' ! i) = wConfig st (children r ! i)"
    using Column_completeLocalLayout_store(1)[OF res] by (simp add: wConfig_def)
  with Column_placement(6)[OF ne res] i
  show "obj_w (children r' ! i) = nat_c (wConfig st' (children r' ! i))" by simp
qed

lemma Column_completeLocalLayout_empty:
  "children r = [] \<Longrightarrow> Column_completeLocalLayout (st, r) = (st, r)"
  by (simp add: Column_completeLocalLayout_def)

section \<open>Properties of the second embedding\<close>

subsection \<open>Children and stores\<close>

lemma truncate_simps [simp]:
  "obj_isSpring (DrawnObject.truncate c) = obj_isSpring c"
  "obj_x (DrawnObject.truncate c) = obj_x c"
  "obj_y (DrawnObject.truncate c) = obj_y c"
  "obj_w (DrawnObject.truncate c) = obj_w c"
  "obj_h (DrawnObject.truncate c) = obj_h c"
  "obj_wConfig (DrawnObject.truncate c) = obj_wConfig c"
  "obj_hConfig (DrawnObject.truncate c) = obj_hConfig c"
  by (simp_all add: DrawnObject.truncate_def)

lemma truncate_update [simp]:
  "DrawnObject.truncate (c\<lparr>obj_w := v\<rparr>) = (DrawnObject.truncate c)\<lparr>obj_w := v\<rparr>"
  "DrawnObject.truncate (c\<lparr>obj_h := v\<rparr>) = (DrawnObject.truncate c)\<lparr>obj_h := v\<rparr>"
  "DrawnObject.truncate (c\<lparr>obj_x := v\<rparr>) = (DrawnObject.truncate c)\<lparr>obj_x := v\<rparr>"
  "DrawnObject.truncate (c\<lparr>obj_y := v\<rparr>) = (DrawnObject.truncate c)\<lparr>obj_y := v\<rparr>"
  by (simp_all add: DrawnObject.truncate_def)

lemma truncate_configs [simp]:
  "wConfig st (DrawnObject.truncate c) = wConfig st c"
  "hConfig st (DrawnObject.truncate c) = hConfig st c"
  "naturalW st (DrawnObject.truncate c) = naturalW st c"
  "minW st (DrawnObject.truncate c) = minW st c"
  "observe_obj st (DrawnObject.truncate c) = observe_obj st c"
  by (simp_all add: wConfig_def hConfig_def naturalW_def minW_def observe_obj_def)

lemma child_set_plain:
  "obj_class c = PlainObject \<Longrightarrow> child_set_w v (st, c) = (st, c\<lparr>obj_w := v\<rparr>)"
  "obj_class c = PlainObject \<Longrightarrow> child_set_h v (st, c) = (st, c\<lparr>obj_h := v\<rparr>)"
  by (simp_all add: child_set_w_def child_set_h_def)

lemma plain_children_class:
  "map obj_class cs' = map obj_class cs \<Longrightarrow> plain_children cs \<Longrightarrow> plain_children cs'"
  unfolding plain_children_def
  by (metis (mono_tags, lifting) imageE image_eqI list.set_map)

lemma plain_children_map:
  "(\<And>c. obj_class (f c) = obj_class c) \<Longrightarrow> plain_children cs \<Longrightarrow> plain_children (map f cs)"
  by (simp add: plain_children_def)

lemma extends_refl [simp]: "extends st st"
  by (simp add: extends_def)


lemma extends_new_SizeConfig:
  "new_SizeConfig n mn mx st = (a, st') \<Longrightarrow>
     extends st st' \<and> a = next_ref st \<and> next_ref st' = Suc (next_ref st)"
  by (auto simp: new_SizeConfig_def extends_def)

lemma extends_read:
  "extends st st' \<Longrightarrow> a < next_ref st \<Longrightarrow> cells st' a = cells st a"
  by (simp add: extends_def)



lemma child_kept_refl [simp]: "child_kept st c c"
  by (simp add: child_kept_def)





lemma binade_numeral:
  "binade (numeral k) x =
     (if x < 1 then binade (pred_numeral k) (2 * x) - 1
      else if 2 \<le> x then binade (pred_numeral k) (x / 2) + 1
      else 0)"
  by (simp add: numeral_eq_Suc)

lemmas double_eval = double_def ulp_def round_half_even_def binade_numeral Let_def

lemma double_small:
  "double 0 = 0" "double 1 = 1" "double 2 = 2" "double 3 = 3" "double 4 = 4" "double 6 = 6"
  "double 7 = 7" "double 8 = 8" "double 12 = 12" "double 16 = 16" "double (- 4) = - 4"
  "double (1 / 2) = 1 / 2"
  by (simp_all add: double_eval)


lemma rd_sum_simps [simp]:
  "rd_sum rd a [] = a" "rd_sum rd a (x # xs) = rd_sum rd (rd (a + x)) xs"
  by (simp_all add: rd_sum_def)

subsection \<open>Lemmas about Row, in full\<close>

lemma NRow_sizing_loop_plain:
  "NRow_sizing_loop (\<lambda>x. x) st cs acc = Row_sizing_loop st (map DrawnObject.truncate cs) acc"
  by (induction cs arbitrary: acc) (auto simp: split_paired_all)

lemma NRow_measure_loop_plain:
  "NRow_measure_loop (\<lambda>x. x) st cs acc = Row_measure_loop st (map DrawnObject.truncate cs) acc"
  by (induction cs arbitrary: acc) (auto simp: split_paired_all Let_def)

lemma NRow_springs_loop_plain:
  "plain_children cs \<Longrightarrow>
     NRow_springs_loop v st cs =
       (st, map (\<lambda>child. if obj_isSpring child then child\<lparr>obj_w := v\<rparr> else child) cs)"
  by (induction cs) (simp_all add: plain_children_def child_set_plain)

lemma NRow_compress_loop_plain:
  "plain_children cs \<Longrightarrow>
     NRow_compress_loop (\<lambda>x. x) S A st cs =
       (st, map (\<lambda>child. if \<not> obj_isSpring child
            then child\<lparr>obj_w := max (min_c (wConfig st child))
                   (nat_c (wConfig st child) -
                      (nat_c (wConfig st child) - min_c (wConfig st child)) / A * S)\<rparr>
            else child) cs)"
  by (induction cs) (simp_all add: plain_children_def child_set_plain Let_def)

lemma NRow_heights_loop_plain:
  "plain_children cs \<Longrightarrow>
     NRow_heights_loop st cs m =
       (st, map (\<lambda>c. c\<lparr>obj_h := nat_c (hConfig st c)\<rparr>) cs,
        foldl max m (map (\<lambda>c. nat_c (hConfig st c)) cs))"
  by (induction cs arbitrary: m) (simp_all add: plain_children_def child_set_plain Let_def max_def)

lemma NRow_stack_loop_plain:
  "map DrawnObject.truncate (NRow_stack_loop (\<lambda>x. x) H j cs x) =
     Row_stack_loop H j (map DrawnObject.truncate cs) x"
  by (induction cs arbitrary: x) (simp_all add: Let_def)

lemma NRow_stack_loop_class:
  "map obj_class (NRow_stack_loop rd H j cs x) = map obj_class cs"
  by (induction cs arbitrary: x) (simp_all add: Let_def)

lemma to_Row_simps [simp]:
  "children (to_Row r) = map DrawnObject.truncate (nchildren r)"
  "hJustification (to_Row r) = n_hJustification r"
  "obj_w (to_Row r) = obj_w r" "obj_h (to_Row r) = obj_h r"
  "obj_x (to_Row r) = obj_x r" "obj_y (to_Row r) = obj_y r"
  "obj_isSpring (to_Row r) = obj_isSpring r"
  "obj_wConfig (to_Row r) = obj_wConfig r" "obj_hConfig (to_Row r) = obj_hConfig r"
  by (simp_all add: to_Row_def)

lemma to_Row_update [simp]:
  "to_Row (r\<lparr>nchildren := cs\<rparr>) = (to_Row r)\<lparr>children := map DrawnObject.truncate cs\<rparr>"
  "to_Row (r\<lparr>obj_h := v\<rparr>) = (to_Row r)\<lparr>obj_h := v\<rparr>"
  "to_Row (r\<lparr>obj_w := v\<rparr>) = (to_Row r)\<lparr>obj_w := v\<rparr>"
  "to_Row (r\<lparr>obj_hConfig := a\<rparr>) = (to_Row r)\<lparr>obj_hConfig := a\<rparr>"
  "to_Row (r\<lparr>obj_wConfig := a\<rparr>) = (to_Row r)\<lparr>obj_wConfig := a\<rparr>"
  by (simp_all add: to_Row_def)

lemma NRow_measureChildren_plain:
  "NRow_measureChildren (\<lambda>x. x) st r = Row_measureChildren st (to_Row r)"
  by (simp add: NRow_measureChildren_def Row_measureChildren_def NRow_measure_loop_plain)

lemma NRow_doLocalSizing_plain:
  "NRow_doLocalSizing (\<lambda>x. x) (st, r) = (st', r') \<Longrightarrow>
     Row_doLocalSizing (st, to_Row r) = (st', to_Row r') \<and> nchildren r' = nchildren r"
  by (auto simp: NRow_doLocalSizing_def Row_doLocalSizing_def NRow_sizing_loop_plain
        split: prod.splits)

lemma NRow_adjustChildren_plain:
  assumes "plain_children (nchildren r)"
    and "NRow_adjustChildren (\<lambda>x. x) (st, r) = (st', r')"
  shows "st' = st" and "to_Row r' = Row_adjustChildren st (to_Row r)"
    and "plain_children (nchildren r')"
proof -
  obtain natSum availCompr numSprings
    where m: "Row_measureChildren st (to_Row r) = (natSum, availCompr, numSprings)"
    by (cases "Row_measureChildren st (to_Row r)") auto
  have z: "plain_children (map (\<lambda>child. if obj_isSpring child then child\<lparr>obj_w := 0\<rparr> else child)
      (nchildren r))"
    using assms(1) by (intro plain_children_map) simp_all
  have res: "st' = st \<and> to_Row r' = Row_adjustChildren st (to_Row r) \<and>
      map obj_class (nchildren r') = map obj_class (nchildren r)"
    using assms(2)
    by (auto simp: NRow_adjustChildren_def Row_adjustChildren_def NRow_measureChildren_plain m
          NRow_expandChildSprings_def Row_expandChildSprings_def NRow_springs_loop_plain[OF assms(1)]
          NRow_compressChildren_def Row_compressChildren_def NRow_compress_loop_plain[OF z]
          Let_def o_def split: if_splits)
  then show "st' = st" "to_Row r' = Row_adjustChildren st (to_Row r)" by simp_all
  from res assms(1) show "plain_children (nchildren r')"
    using plain_children_class by blast
qed

lemma NRow_completeLocalLayout_plain:
  assumes pl: "plain_children (nchildren r)"
    and res: "NRow_completeLocalLayout (\<lambda>x. x) (st, r) = (st', r')"
  shows "Row_completeLocalLayout (st, to_Row r) = (st', to_Row r')"
    and "plain_children (nchildren r')"
proof -
  have "Row_completeLocalLayout (st, to_Row r) = (st', to_Row r') \<and> plain_children (nchildren r')"
  proof (cases "nchildren r = []")
    case True
    with res pl show ?thesis
      by (auto simp: NRow_completeLocalLayout_def Row_completeLocalLayout_def)
  next
    case False
    obtain st1 r1 where a: "NRow_adjustChildren (\<lambda>x. x) (st, r) = (st1, r1)" by force
    note a1 = NRow_adjustChildren_plain[OF pl a]
    have hl: "NRow_heights_loop st (nchildren r1) 0 =
       (st, map (\<lambda>c. c\<lparr>obj_h := nat_c (hConfig st c)\<rparr>) (nchildren r1),
        foldl max 0 (map (\<lambda>c. nat_c (hConfig st c)) (nchildren r1)))"
      by (rule NRow_heights_loop_plain[OF a1(3)])
    have ch: "children (Row_adjustChildren st (to_Row r)) = map DrawnObject.truncate (nchildren r1)"
      using a1(2) by (metis to_Row_simps(1))
    have hr: "Row_heights_loop st (map DrawnObject.truncate (nchildren r1)) 0 =
       (map DrawnObject.truncate (map (\<lambda>c. c\<lparr>obj_h := nat_c (hConfig st c)\<rparr>) (nchildren r1)),
        foldl max 0 (map (\<lambda>c. nat_c (hConfig st c)) (nchildren r1)))"
      by (simp add: Row_heights_loop_eq o_def)
    from res False have 1: "Row_completeLocalLayout (st, to_Row r) = (st', to_Row r')"
      unfolding NRow_completeLocalLayout_def Row_completeLocalLayout_def
      by (simp add: a a1(1) hl ch hr Let_def NRow_stack_loop_plain a1(2)[symmetric] o_def)
        (auto simp: NRow_stack_loop_plain o_def)
    have "map obj_class (nchildren r') = map obj_class (nchildren r1)"
      using res False
      by (auto simp: NRow_completeLocalLayout_def a a1(1) hl Let_def NRow_stack_loop_class o_def)
    then have "plain_children (nchildren r')"
      using a1(3) plain_children_class by blast
    with 1 show ?thesis by simp
  qed
  then show "Row_completeLocalLayout (st, to_Row r) = (st', to_Row r')"
    "plain_children (nchildren r')" by simp_all
qed

lemma NRow_observe_plain: "NRow_observe (st, r) = Row_observe (st, to_Row r)"
  by (simp add: NRow_observe_def Row_observe_def observe_obj_def wConfig_def hConfig_def o_def)

lemma NRow_layout_pass_plain:
  assumes pl: "plain_children (nchildren r)"
    and res: "NRow_layout_pass (\<lambda>x. x) (st, r) = (st', r')"
  shows "Row_layout_pass (st, to_Row r) = (st', to_Row r')" and "plain_children (nchildren r')"
proof -
  obtain st1 r1 where s: "NRow_doLocalSizing (\<lambda>x. x) (st, r) = (st1, r1)" by force
  note s1 = NRow_doLocalSizing_plain[OF s]
  from s1 pl have pl1: "plain_children (nchildren r1)" by simp
  from res have c: "NRow_completeLocalLayout (\<lambda>x. x) (st1, r1) = (st', r')"
    by (simp add: NRow_layout_pass_def s)
  from NRow_completeLocalLayout_plain[OF pl1 c] s1
  show "Row_layout_pass (st, to_Row r) = (st', to_Row r')" and "plain_children (nchildren r')"
    by (simp_all add: Row_layout_pass_def)
qed

lemma n_allocated_plain: "n_allocated st (nchildren r) \<Longrightarrow> allocated st (children (to_Row r))"
  by (auto simp: n_allocated_def allocated_def)












subsection \<open>A layout cycle of a row whose children are no containers, for every rounding\<close>

lemma NRow_sizing_loop_eq:
  "NRow_sizing_loop rd st cs (a, b, c, d, e, f) =
     (rd_sum rd a (map (\<lambda>x. min_c (wConfig st x)) cs),
      rd_sum rd b (map (\<lambda>x. nat_c (wConfig st x)) cs),
      rd_sum rd c (map (\<lambda>x. max_c (wConfig st x)) cs),
      foldl max d (map (\<lambda>x. min_c (hConfig st x)) cs),
      foldl max e (map (\<lambda>x. nat_c (hConfig st x)) cs),
      foldl max f (map (\<lambda>x. max_c (hConfig st x)) cs))"
  by (induction cs arbitrary: a b c d e f) simp_all

lemma NRow_doLocalSizing_eq:
  "NRow_doLocalSizing rd (st, r) =
     (st\<lparr>cells := (cells st)
           (next_ref st :=
              \<lparr>nat_c = foldl max 0 (map (\<lambda>x. nat_c (hConfig st x)) (nchildren r)),
               min_c = foldl max 0 (map (\<lambda>x. min_c (hConfig st x)) (nchildren r)),
               max_c = foldl max 0 (map (\<lambda>x. max_c (hConfig st x)) (nchildren r))\<rparr>,
            Suc (next_ref st) :=
              \<lparr>nat_c = rd_sum rd 0 (map (\<lambda>x. nat_c (wConfig st x)) (nchildren r)),
               min_c = rd_sum rd 0 (map (\<lambda>x. min_c (wConfig st x)) (nchildren r)),
               max_c = rd_sum rd 0 (map (\<lambda>x. max_c (wConfig st x)) (nchildren r))\<rparr>),
         next_ref := Suc (Suc (next_ref st))\<rparr>,
      r\<lparr>obj_hConfig := next_ref st, obj_wConfig := Suc (next_ref st)\<rparr>)"
  by (simp add: NRow_doLocalSizing_def NRow_sizing_loop_eq new_SizeConfig_def)

lemma NRow_measure_loop_cong:
  assumes "list_all2 (\<lambda>a b. obj_isSpring a = obj_isSpring b \<and> wConfig st2 a = wConfig st b) cs2 cs"
  shows "NRow_measure_loop rd st2 cs2 acc = NRow_measure_loop rd st cs acc"
  using assms
proof (induction cs2 cs arbitrary: acc rule: list_all2_induct)
  case Nil
  then show ?case by simp
next
  case (Cons a cs2 b cs)
  then show ?case by (cases acc) (simp add: naturalW_def minW_def)
qed

lemma NRow_compress_loop_eq:
  "plain_children cs \<Longrightarrow>
     NRow_compress_loop rd S A st cs =
       (st, map (\<lambda>child. if \<not> obj_isSpring child
            then child\<lparr>obj_w := max (min_c (wConfig st child))
                   (rd (nat_c (wConfig st child) -
                      rd (rd (rd (nat_c (wConfig st child) - min_c (wConfig st child)) / A) * S)))\<rparr>
            else child) cs)"
  by (induction cs) (simp_all add: plain_children_def child_set_plain Let_def)

lemma NRow_adjusted_child_refs [simp]:
  "obj_hConfig (NRow_adjusted_child rd st W m c) = obj_hConfig c"
  "obj_wConfig (NRow_adjusted_child rd st W m c) = obj_wConfig c"
  "obj_isSpring (NRow_adjusted_child rd st W m c) = obj_isSpring c"
  "obj_class (NRow_adjusted_child rd st W m c) = obj_class c"
  "obj_h (NRow_adjusted_child rd st W m c) = obj_h c"
  "obj_x (NRow_adjusted_child rd st W m c) = obj_x c"
  "obj_y (NRow_adjusted_child rd st W m c) = obj_y c"
  by (cases m; simp add: NRow_adjusted_child_def)+

lemma NRow_adjustChildren_eq:
  assumes pl: "plain_children (nchildren r)"
  shows "NRow_adjustChildren rd (st, r) =
     (st, r\<lparr>nchildren :=
        map (NRow_adjusted_child rd st (obj_w r) (NRow_measureChildren rd st r)) (nchildren r)\<rparr>)"
proof -
  obtain natSum availCompr numSprings
    where m: "NRow_measureChildren rd st r = (natSum, availCompr, numSprings)"
    by (cases "NRow_measureChildren rd st r") auto
  have z: "plain_children (map (\<lambda>child. if obj_isSpring child then child\<lparr>obj_w := 0\<rparr> else child)
      (nchildren r))"
    using pl by (intro plain_children_map) simp_all
  consider (expand0) "rd (obj_w r - natSum) \<ge> 0" "numSprings = 0"
    | (expand) "rd (obj_w r - natSum) \<ge> 0" "numSprings \<noteq> 0"
    | (stuck) "\<not> rd (obj_w r - natSum) \<ge> 0" "availCompr = 0"
    | (compress) "\<not> rd (obj_w r - natSum) \<ge> 0" "availCompr \<noteq> 0"
    by blast
  then show ?thesis
  proof cases
    case expand0
    then have "map (NRow_adjusted_child rd st (obj_w r) (natSum, availCompr, numSprings)) (nchildren r) =
        nchildren r"
      by (intro map_idI) (simp add: NRow_adjusted_child_def)
    with expand0 show ?thesis
      by (simp add: NRow_adjustChildren_def m NRow_expandChildSprings_def)
  next
    case expand
    then show ?thesis
      by (simp add: NRow_adjustChildren_def m NRow_expandChildSprings_def NRow_adjusted_child_def
            NRow_springs_loop_plain[OF pl] Let_def)
  next
    case stuck
    then show ?thesis
      by (simp add: NRow_adjustChildren_def m NRow_adjusted_child_def
            NRow_springs_loop_plain[OF pl] Let_def)
  next
    case compress
    then show ?thesis
      by (simp add: NRow_adjustChildren_def m NRow_compressChildren_def NRow_adjusted_child_def
            NRow_springs_loop_plain[OF pl] NRow_compress_loop_eq[OF z] Let_def wConfig_def)
  qed
qed

lemma NRow_stack_length [simp]: "length (NRow_stack_loop rd H j cs x) = length cs"
  by (induction cs arbitrary: x) (simp_all add: Let_def)

lemma NRow_stack_nth:
  "i < length cs \<Longrightarrow>
     NRow_stack_loop rd H j cs x ! i =
       (cs ! i)\<lparr>obj_x := rd_sum rd x (map obj_w (take i cs)),
                 obj_y := (if j = ''top'' then 0
                           else if j = ''center'' then rd (rd (H / 2) - rd (obj_h (cs ! i) / 2))
                           else if j = ''bottom'' then rd (H - obj_h (cs ! i))
                           else 0)\<rparr>"
proof (induction cs arbitrary: x i)
  case Nil
  then show ?case by simp
next
  case (Cons c cs)
  show ?case
  proof (cases i)
    case 0
    then show ?thesis by (simp add: Let_def)
  next
    case (Suc k)
    with Cons.prems have "k < length cs" by simp
    from Cons.IH[OF this] Suc show ?thesis by (simp add: Let_def)
  qed
qed

lemma NRow_completeLocalLayout_eq:
  assumes "nchildren r \<noteq> []" and pl: "plain_children (nchildren r)"
  shows "NRow_completeLocalLayout rd (st, r) =
     (st\<lparr>cells := (cells st)(obj_hConfig r := (cells st (obj_hConfig r))
              \<lparr>nat_c := foldl max 0 (map (\<lambda>c. nat_c (hConfig st c)) (nchildren r))\<rparr>)\<rparr>,
      r\<lparr>obj_h := foldl max 0 (map (\<lambda>c. nat_c (hConfig st c)) (nchildren r)),
        nchildren := NRow_stack_loop rd (foldl max 0 (map (\<lambda>c. nat_c (hConfig st c)) (nchildren r)))
           (n_hJustification r)
           (map (\<lambda>c. (NRow_adjusted_child rd st (obj_w r) (NRow_measureChildren rd st r) c)
                   \<lparr>obj_h := nat_c (hConfig st c)\<rparr>) (nchildren r)) 0\<rparr>)"
proof -
  have pl1: "plain_children
      (map (NRow_adjusted_child rd st (obj_w r) (NRow_measureChildren rd st r)) (nchildren r))"
    using pl by (intro plain_children_map) simp_all
  from assms(1) show ?thesis
    by (simp add: NRow_completeLocalLayout_def NRow_adjustChildren_eq[OF pl]
          NRow_heights_loop_plain[OF pl1] Let_def o_def hConfig_def)
qed

lemma NRow_adjusted_child_fix:
  assumes "obj_isSpring c' = obj_isSpring c" "wConfig st2 c' = wConfig st c"
    "obj_w c' = obj_w (NRow_adjusted_child rd st W m c)"
  shows "NRow_adjusted_child rd st2 W m c' = c'"
  using assms by (cases m) (auto simp: NRow_adjusted_child_def split: if_splits)

lemma NRow_stack_idem:
  "NRow_stack_loop rd H j (NRow_stack_loop rd H j cs 0) 0 = NRow_stack_loop rd H j cs 0"
proof (rule nth_equalityI)
  show "length (NRow_stack_loop rd H j (NRow_stack_loop rd H j cs 0) 0) =
      length (NRow_stack_loop rd H j cs 0)"
    by simp
next
  fix i assume "i < length (NRow_stack_loop rd H j (NRow_stack_loop rd H j cs 0) 0)"
  then have i: "i < length cs" by simp
  have "map obj_w (take i (NRow_stack_loop rd H j cs 0)) = map obj_w (take i cs)"
    using i by (intro nth_equalityI) (simp_all add: NRow_stack_nth)
  then show "NRow_stack_loop rd H j (NRow_stack_loop rd H j cs 0) 0 ! i =
      NRow_stack_loop rd H j cs 0 ! i"
    using i by (simp add: NRow_stack_nth)
qed

lemma NRow_pass_settled:
  assumes alloc: "n_allocated st (nchildren r)"
    and pl: "plain_children (nchildren r)"
    and ne: "nchildren r \<noteq> []"
    and fix_w: "\<forall>c\<in>set (nchildren r).
        NRow_adjusted_child rd st (obj_w r) (NRow_measureChildren rd st r) c = c"
    and fix_h: "\<forall>c\<in>set (nchildren r). obj_h c = nat_c (hConfig st c)"
    and fix_xy: "NRow_stack_loop rd (obj_h r) (n_hJustification r) (nchildren r) 0 = nchildren r"
    and H: "obj_h r = foldl max 0 (map (\<lambda>c. nat_c (hConfig st c)) (nchildren r))"
    and hc: "hConfig st r =
              \<lparr>nat_c = foldl max 0 (map (\<lambda>x. nat_c (hConfig st x)) (nchildren r)),
               min_c = foldl max 0 (map (\<lambda>x. min_c (hConfig st x)) (nchildren r)),
               max_c = foldl max 0 (map (\<lambda>x. max_c (hConfig st x)) (nchildren r))\<rparr>"
    and wc: "wConfig st r =
              \<lparr>nat_c = rd_sum rd 0 (map (\<lambda>x. nat_c (wConfig st x)) (nchildren r)),
               min_c = rd_sum rd 0 (map (\<lambda>x. min_c (wConfig st x)) (nchildren r)),
               max_c = rd_sum rd 0 (map (\<lambda>x. max_c (wConfig st x)) (nchildren r))\<rparr>"
  shows "NRow_observe (NRow_layout_pass rd (st, r)) = NRow_observe (st, r)"
proof -
  obtain st1 r1 where s1: "NRow_doLocalSizing rd (st, r) = (st1, r1)" by force
  have r1: "r1 = r\<lparr>obj_hConfig := next_ref st, obj_wConfig := Suc (next_ref st)\<rparr>"
    and st1_old: "\<And>a. a < next_ref st \<Longrightarrow> cells st1 a = cells st a"
    and st1_h: "cells st1 (next_ref st) = hConfig st r"
    and st1_w: "cells st1 (Suc (next_ref st)) = wConfig st r"
    using s1 unfolding NRow_doLocalSizing_eq hc wc by auto
  have agree: "\<And>c. c \<in> set (nchildren r) \<Longrightarrow> wConfig st1 c = wConfig st c \<and> hConfig st1 c = hConfig st c"
    using alloc st1_old by (simp add: n_allocated_def wConfig_def hConfig_def)
  have ch1: "nchildren r1 = nchildren r" "obj_w r1 = obj_w r" by (simp_all add: r1)
  have m1: "NRow_measureChildren rd st1 r1 = NRow_measureChildren rd st r"
    unfolding NRow_measureChildren_def ch1
    by (rule NRow_measure_loop_cong) (simp add: list_all2_same agree)
  have nat1: "map (\<lambda>c. nat_c (hConfig st1 c)) (nchildren r) = map (\<lambda>c. nat_c (hConfig st c)) (nchildren r)"
    by (simp add: agree)
  have L: "map (\<lambda>c. (NRow_adjusted_child rd st1 (obj_w r) (NRow_measureChildren rd st r) c)
                   \<lparr>obj_h := nat_c (hConfig st1 c)\<rparr>) (nchildren r) = nchildren r"
  proof (rule map_idI)
    fix c assume c: "c \<in> set (nchildren r)"
    have "NRow_adjusted_child rd st1 (obj_w r) (NRow_measureChildren rd st r) c = c"
      by (rule NRow_adjusted_child_fix[where c = c and st = st]) (simp_all add: agree c fix_w)
    with c fix_h agree show "(NRow_adjusted_child rd st1 (obj_w r) (NRow_measureChildren rd st r) c)
                   \<lparr>obj_h := nat_c (hConfig st1 c)\<rparr> = c" by simp
  qed
  have ne1: "nchildren r1 \<noteq> []" using ne ch1 by simp
  have pl1: "plain_children (nchildren r1)" using pl ch1 by simp
  define st2 where
    "st2 = st1\<lparr>cells := (cells st1)(next_ref st := (cells st1 (next_ref st))\<lparr>nat_c := obj_h r\<rparr>)\<rparr>"
  define r2 where "r2 = r1\<lparr>obj_h := obj_h r, nchildren := nchildren r\<rparr>"
  have s2: "NRow_completeLocalLayout rd (st1, r1) = (st2, r2)"
    unfolding NRow_completeLocalLayout_eq[OF ne1 pl1] ch1 m1 nat1 L st2_def r2_def
    by (simp add: H[symmetric] fix_xy r1)
  note st2 = st2_def and r2 = r2_def
  have "(cells st1 (next_ref st))\<lparr>nat_c := obj_h r\<rparr> = hConfig st r"
    unfolding st1_h by (simp add: hc H)
  then have st2_h: "cells st2 (next_ref st) = hConfig st r" by (simp add: st2)
  have st2_w: "cells st2 (Suc (next_ref st)) = wConfig st r" by (simp add: st2 st1_w)
  have agree2: "\<And>c. c \<in> set (nchildren r) \<Longrightarrow> wConfig st2 c = wConfig st c \<and> hConfig st2 c = hConfig st c"
    using alloc st1_old by (auto simp: n_allocated_def wConfig_def hConfig_def st2)
  have own: "wConfig st2 r2 = wConfig st r" "hConfig st2 r2 = hConfig st r"
    using st2_h st2_w by (simp_all add: wConfig_def hConfig_def r2 r1)
  have kids: "map (observe_obj st2) (nchildren r) = map (observe_obj st) (nchildren r)"
    by (rule map_cong[OF refl]) (simp add: observe_obj_def agree2)
  have "observe_obj st2 r2 = observe_obj st r"
    by (simp add: observe_obj_def own) (simp add: r2 r1)
  moreover have "nchildren r2 = nchildren r" "n_hJustification r2 = n_hJustification r"
    by (simp_all add: r2 r1)
  ultimately have "NRow_observe (st2, r2) = NRow_observe (st, r)"
    unfolding NRow_observe_def by (simp only: prod.case kids)
  then show ?thesis by (simp add: NRow_layout_pass_def s1 s2)
qed

lemma NRow_pass_settles:
  assumes alloc: "n_allocated st (nchildren r)"
    and pl: "plain_children (nchildren r)"
    and ne: "nchildren r \<noteq> []"
    and pass: "NRow_layout_pass rd (st, r) = (st', r')"
  shows "n_allocated st' (nchildren r')"
    and "plain_children (nchildren r')"
    and "nchildren r' \<noteq> []"
    and "\<forall>c\<in>set (nchildren r').
        NRow_adjusted_child rd st' (obj_w r') (NRow_measureChildren rd st' r') c = c"
    and "\<forall>c\<in>set (nchildren r'). obj_h c = nat_c (hConfig st' c)"
    and "NRow_stack_loop rd (obj_h r') (n_hJustification r') (nchildren r') 0 = nchildren r'"
    and "obj_h r' = foldl max 0 (map (\<lambda>c. nat_c (hConfig st' c)) (nchildren r'))"
    and "hConfig st' r' =
              \<lparr>nat_c = foldl max 0 (map (\<lambda>x. nat_c (hConfig st' x)) (nchildren r')),
               min_c = foldl max 0 (map (\<lambda>x. min_c (hConfig st' x)) (nchildren r')),
               max_c = foldl max 0 (map (\<lambda>x. max_c (hConfig st' x)) (nchildren r'))\<rparr>"
    and "wConfig st' r' =
              \<lparr>nat_c = rd_sum rd 0 (map (\<lambda>x. nat_c (wConfig st' x)) (nchildren r')),
               min_c = rd_sum rd 0 (map (\<lambda>x. min_c (wConfig st' x)) (nchildren r')),
               max_c = rd_sum rd 0 (map (\<lambda>x. max_c (wConfig st' x)) (nchildren r'))\<rparr>"
proof -
  define n where "n = next_ref st"
  define W where "W = obj_w r"
  define j where "j = n_hJustification r"
  define m where "m = NRow_measureChildren rd st r"
  define H where "H = foldl max 0 (map (\<lambda>c. nat_c (hConfig st c)) (nchildren r))"
  define Hc where "Hc =
     \<lparr>nat_c = foldl max 0 (map (\<lambda>x. nat_c (hConfig st x)) (nchildren r)),
      min_c = foldl max 0 (map (\<lambda>x. min_c (hConfig st x)) (nchildren r)),
      max_c = foldl max 0 (map (\<lambda>x. max_c (hConfig st x)) (nchildren r))\<rparr>"
  define Wc where "Wc =
     \<lparr>nat_c = rd_sum rd 0 (map (\<lambda>x. nat_c (wConfig st x)) (nchildren r)),
      min_c = rd_sum rd 0 (map (\<lambda>x. min_c (wConfig st x)) (nchildren r)),
      max_c = rd_sum rd 0 (map (\<lambda>x. max_c (wConfig st x)) (nchildren r))\<rparr>"
  define st1 where "st1 = st\<lparr>cells := (cells st)(n := Hc, Suc n := Wc), next_ref := Suc (Suc n)\<rparr>"
  define r1 where "r1 = r\<lparr>obj_hConfig := n, obj_wConfig := Suc n\<rparr>"
  have s1: "NRow_doLocalSizing rd (st, r) = (st1, r1)"
    by (simp add: NRow_doLocalSizing_eq st1_def r1_def Hc_def Wc_def n_def)
  have agree: "\<And>c. c \<in> set (nchildren r) \<Longrightarrow> wConfig st1 c = wConfig st c \<and> hConfig st1 c = hConfig st c"
    using alloc by (auto simp: n_allocated_def wConfig_def hConfig_def st1_def n_def)
  have ch1: "nchildren r1 = nchildren r" "obj_w r1 = W" "n_hJustification r1 = j"
    by (simp_all add: r1_def W_def j_def)
  have m1: "NRow_measureChildren rd st1 r1 = m"
    unfolding NRow_measureChildren_def ch1 m_def
    by (rule NRow_measure_loop_cong) (simp add: list_all2_same agree)
  have nat1: "map (\<lambda>c. nat_c (hConfig st1 c)) (nchildren r) = map (\<lambda>c. nat_c (hConfig st c)) (nchildren r)"
    by (simp add: agree)
  define L where "L = map (\<lambda>c. (NRow_adjusted_child rd st W m c)\<lparr>obj_h := nat_c (hConfig st c)\<rparr>) (nchildren r)"
  have L1: "map (\<lambda>c. (NRow_adjusted_child rd st1 W m c)\<lparr>obj_h := nat_c (hConfig st1 c)\<rparr>) (nchildren r) = L"
    unfolding L_def
  proof (rule map_cong[OF refl])
    fix c assume c: "c \<in> set (nchildren r)"
    then have "NRow_adjusted_child rd st1 W m c = NRow_adjusted_child rd st W m c"
      using agree[OF c] by (cases m) (simp add: NRow_adjusted_child_def)
    with agree[OF c] show "(NRow_adjusted_child rd st1 W m c)\<lparr>obj_h := nat_c (hConfig st1 c)\<rparr> =
        (NRow_adjusted_child rd st W m c)\<lparr>obj_h := nat_c (hConfig st c)\<rparr>" by simp
  qed
  have ne1: "nchildren r1 \<noteq> []" using ne ch1 by simp
  have pl1: "plain_children (nchildren r1)" using pl ch1 by simp
  have st': "st' = st1\<lparr>cells := (cells st1)(n := (cells st1 n)\<lparr>nat_c := H\<rparr>)\<rparr>"
    and r': "r' = r1\<lparr>obj_h := H, nchildren := NRow_stack_loop rd H j L 0\<rparr>"
    using pass unfolding NRow_layout_pass_def s1 NRow_completeLocalLayout_eq[OF ne1 pl1] ch1 m1 nat1 L1
    by (simp_all add: H_def r1_def)
  have cells': "cells st' n = Hc" "cells st' (Suc n) = Wc" "\<And>a. a < n \<Longrightarrow> cells st' a = cells st a"
    by (simp_all add: st' st1_def Hc_def H_def)
  have own: "obj_h r' = H" "obj_w r' = W" "n_hJustification r' = j" "hConfig st' r' = Hc"
    "wConfig st' r' = Wc" "nchildren r' = NRow_stack_loop rd H j L 0"
    by (simp_all add: r' r1_def W_def j_def hConfig_def wConfig_def cells')
  have rel: "list_all2 (\<lambda>c' c. obj_isSpring c' = obj_isSpring c \<and> wConfig st' c' = wConfig st c \<and>
                 hConfig st' c' = hConfig st c \<and> obj_w c' = obj_w (NRow_adjusted_child rd st W m c) \<and>
                 obj_h c' = nat_c (hConfig st c) \<and> obj_wConfig c' < n \<and> obj_hConfig c' < n \<and>
                 obj_class c' = obj_class c)
               (nchildren r') (nchildren r)"
    unfolding own list_all2_conv_all_nth
  proof (intro conjI allI impI)
    show "length (NRow_stack_loop rd H j L 0) = length (nchildren r)" by (simp add: L_def)
  next
    fix i assume "i < length (NRow_stack_loop rd H j L 0)"
    then have i: "i < length (nchildren r)" by (simp add: L_def)
    then have "nchildren r ! i \<in> set (nchildren r)" by simp
    then have a: "obj_wConfig (nchildren r ! i) < n" "obj_hConfig (nchildren r ! i) < n"
      using alloc by (simp_all add: n_allocated_def n_def)
    from i have Li: "i < length L" by (simp add: L_def)
    from i a cells'(3) show
      "obj_isSpring (NRow_stack_loop rd H j L 0 ! i) = obj_isSpring (nchildren r ! i)"
      "wConfig st' (NRow_stack_loop rd H j L 0 ! i) = wConfig st (nchildren r ! i)"
      "hConfig st' (NRow_stack_loop rd H j L 0 ! i) = hConfig st (nchildren r ! i)"
      "obj_w (NRow_stack_loop rd H j L 0 ! i) = obj_w (NRow_adjusted_child rd st W m (nchildren r ! i))"
      "obj_h (NRow_stack_loop rd H j L 0 ! i) = nat_c (hConfig st (nchildren r ! i))"
      "obj_wConfig (NRow_stack_loop rd H j L 0 ! i) < n"
      "obj_hConfig (NRow_stack_loop rd H j L 0 ! i) < n"
      "obj_class (NRow_stack_loop rd H j L 0 ! i) = obj_class (nchildren r ! i)"
      by (simp_all add: NRow_stack_nth[OF Li] wConfig_def hConfig_def)
        (simp_all add: L_def hConfig_def)
  qed
  have maps:
    "map (\<lambda>x. nat_c (hConfig st' x)) (nchildren r') = map (\<lambda>x. nat_c (hConfig st x)) (nchildren r)"
    "map (\<lambda>x. min_c (hConfig st' x)) (nchildren r') = map (\<lambda>x. min_c (hConfig st x)) (nchildren r)"
    "map (\<lambda>x. max_c (hConfig st' x)) (nchildren r') = map (\<lambda>x. max_c (hConfig st x)) (nchildren r)"
    "map (\<lambda>x. nat_c (wConfig st' x)) (nchildren r') = map (\<lambda>x. nat_c (wConfig st x)) (nchildren r)"
    "map (\<lambda>x. min_c (wConfig st' x)) (nchildren r') = map (\<lambda>x. min_c (wConfig st x)) (nchildren r)"
    "map (\<lambda>x. max_c (wConfig st' x)) (nchildren r') = map (\<lambda>x. max_c (wConfig st x)) (nchildren r)"
    by (rule list_all2_map_eq[OF rel]; simp)+
  have m': "NRow_measureChildren rd st' r' = m"
    unfolding NRow_measureChildren_def m_def
    by (rule NRow_measure_loop_cong) (rule list_all2_mono[OF rel], simp)
  have nr: "next_ref st' = Suc (Suc n)" by (simp add: st' st1_def)
  show "n_allocated st' (nchildren r')"
    unfolding n_allocated_def nr
  proof
    fix c' assume "c' \<in> set (nchildren r')"
    then obtain i where i: "i < length (nchildren r')" "c' = nchildren r' ! i"
      by (auto simp: in_set_conv_nth)
    with rel have "obj_wConfig c' < n" "obj_hConfig c' < n"
      by (simp_all add: list_all2_conv_all_nth)
    then show "obj_wConfig c' < Suc (Suc n) \<and> obj_hConfig c' < Suc (Suc n)" by simp
  qed
  have "map obj_class (nchildren r') = map obj_class (nchildren r)"
    by (rule list_all2_map_eq[OF rel]) simp
  then show "plain_children (nchildren r')"
    using pl by (rule plain_children_class)
  have "length (nchildren r') = length (nchildren r)" by (simp add: own L_def)
  with ne show "nchildren r' \<noteq> []" by auto
  show "\<forall>c\<in>set (nchildren r').
      NRow_adjusted_child rd st' (obj_w r') (NRow_measureChildren rd st' r') c = c"
    unfolding m' own(2)
  proof
    fix c' assume "c' \<in> set (nchildren r')"
    then obtain i where i: "i < length (nchildren r')" "c' = nchildren r' ! i"
      by (auto simp: in_set_conv_nth)
    with rel have "obj_isSpring c' = obj_isSpring (nchildren r ! i)"
      "wConfig st' c' = wConfig st (nchildren r ! i)"
      "obj_w c' = obj_w (NRow_adjusted_child rd st W m (nchildren r ! i))"
      by (simp_all add: list_all2_conv_all_nth)
    then show "NRow_adjusted_child rd st' W m c' = c'" by (rule NRow_adjusted_child_fix)
  qed
  show "\<forall>c\<in>set (nchildren r'). obj_h c = nat_c (hConfig st' c)"
    using rel by (auto simp: list_all2_conv_all_nth in_set_conv_nth)
  show "NRow_stack_loop rd (obj_h r') (n_hJustification r') (nchildren r') 0 = nchildren r'"
    unfolding own by (rule NRow_stack_idem)
  show "obj_h r' = foldl max 0 (map (\<lambda>c. nat_c (hConfig st' c)) (nchildren r'))"
    unfolding maps own(1) H_def ..
  show "hConfig st' r' =
              \<lparr>nat_c = foldl max 0 (map (\<lambda>x. nat_c (hConfig st' x)) (nchildren r')),
               min_c = foldl max 0 (map (\<lambda>x. min_c (hConfig st' x)) (nchildren r')),
               max_c = foldl max 0 (map (\<lambda>x. max_c (hConfig st' x)) (nchildren r'))\<rparr>"
    unfolding maps own(4) Hc_def ..
  show "wConfig st' r' =
              \<lparr>nat_c = rd_sum rd 0 (map (\<lambda>x. nat_c (wConfig st' x)) (nchildren r')),
               min_c = rd_sum rd 0 (map (\<lambda>x. min_c (wConfig st' x)) (nchildren r')),
               max_c = rd_sum rd 0 (map (\<lambda>x. max_c (wConfig st' x)) (nchildren r'))\<rparr>"
    unfolding maps own(5) Wc_def ..
qed

lemma NRow_pass_idem:
  assumes alloc: "n_allocated st (nchildren r)" and pl: "plain_children (nchildren r)"
  shows "NRow_observe (NRow_layout_pass rd (NRow_layout_pass rd (st, r))) =
         NRow_observe (NRow_layout_pass rd (st, r))"
proof (cases "nchildren r = []")
  case True
  then show ?thesis
    by (simp add: NRow_layout_pass_def NRow_doLocalSizing_eq NRow_completeLocalLayout_def
          NRow_observe_def observe_obj_def wConfig_def hConfig_def)
next
  case False
  obtain st' r' where p: "NRow_layout_pass rd (st, r) = (st', r')" by force
  show ?thesis
    unfolding p by (rule NRow_pass_settled[OF NRow_pass_settles[OF alloc pl False p]])
qed

subsection \<open>The cross axis of a row, for children of any class\<close>










subsection \<open>Lemmas about Column, in full\<close>

lemma NColumn_sizing_loop_plain:
  "NColumn_sizing_loop (\<lambda>x. x) st cs acc = Column_sizing_loop st (map DrawnObject.truncate cs) acc"
  by (induction cs arbitrary: acc) (auto simp: split_paired_all)

lemma NColumn_measure_loop_plain:
  "NColumn_measure_loop (\<lambda>x. x) st cs acc = Column_measure_loop st (map DrawnObject.truncate cs) acc"
  by (induction cs arbitrary: acc) (auto simp: split_paired_all Let_def)

lemma NColumn_springs_loop_plain:
  "plain_children cs \<Longrightarrow>
     NColumn_springs_loop v st cs =
       (st, map (\<lambda>child. if obj_isSpring child then child\<lparr>obj_h := v\<rparr> else child) cs)"
  by (induction cs) (simp_all add: plain_children_def child_set_plain)

lemma NColumn_compress_loop_plain:
  "plain_children cs \<Longrightarrow>
     NColumn_compress_loop (\<lambda>x. x) S A st cs =
       (st, map (\<lambda>child. if \<not> obj_isSpring child
            then child\<lparr>obj_h := max (min_c (hConfig st child))
                   (nat_c (hConfig st child) -
                      (nat_c (hConfig st child) - min_c (hConfig st child)) / A * S)\<rparr>
            else child) cs)"
  by (induction cs) (simp_all add: plain_children_def child_set_plain Let_def)

lemma NColumn_widths_loop_plain:
  "plain_children cs \<Longrightarrow>
     NColumn_widths_loop st cs m =
       (st, map (\<lambda>c. c\<lparr>obj_w := nat_c (wConfig st c)\<rparr>) cs,
        foldl max m (map (\<lambda>c. nat_c (wConfig st c)) cs))"
  by (induction cs arbitrary: m) (simp_all add: plain_children_def child_set_plain Let_def max_def)

lemma NColumn_stack_loop_plain:
  "map DrawnObject.truncate (NColumn_stack_loop (\<lambda>x. x) H j cs x) =
     Column_stack_loop H j (map DrawnObject.truncate cs) x"
  by (induction cs arbitrary: x) (simp_all add: Let_def)

lemma NColumn_stack_loop_class:
  "map obj_class (NColumn_stack_loop rd H j cs x) = map obj_class cs"
  by (induction cs arbitrary: x) (simp_all add: Let_def)

lemma to_Column_simps [simp]:
  "children (to_Column r) = map DrawnObject.truncate (nchildren r)"
  "wJustification (to_Column r) = n_wJustification r"
  "obj_h (to_Column r) = obj_h r" "obj_w (to_Column r) = obj_w r"
  "obj_y (to_Column r) = obj_y r" "obj_x (to_Column r) = obj_x r"
  "obj_isSpring (to_Column r) = obj_isSpring r"
  "obj_hConfig (to_Column r) = obj_hConfig r" "obj_wConfig (to_Column r) = obj_wConfig r"
  by (simp_all add: to_Column_def)

lemma to_Column_update [simp]:
  "to_Column (r\<lparr>nchildren := cs\<rparr>) = (to_Column r)\<lparr>children := map DrawnObject.truncate cs\<rparr>"
  "to_Column (r\<lparr>obj_w := v\<rparr>) = (to_Column r)\<lparr>obj_w := v\<rparr>"
  "to_Column (r\<lparr>obj_h := v\<rparr>) = (to_Column r)\<lparr>obj_h := v\<rparr>"
  "to_Column (r\<lparr>obj_wConfig := a\<rparr>) = (to_Column r)\<lparr>obj_wConfig := a\<rparr>"
  "to_Column (r\<lparr>obj_hConfig := a\<rparr>) = (to_Column r)\<lparr>obj_hConfig := a\<rparr>"
  by (simp_all add: to_Column_def)

lemma NColumn_measureChildren_plain:
  "NColumn_measureChildren (\<lambda>x. x) st r = Column_measureChildren st (to_Column r)"
  by (simp add: NColumn_measureChildren_def Column_measureChildren_def NColumn_measure_loop_plain)

lemma NColumn_doLocalSizing_plain:
  "NColumn_doLocalSizing (\<lambda>x. x) (st, r) = (st', r') \<Longrightarrow>
     Column_doLocalSizing (st, to_Column r) = (st', to_Column r') \<and> nchildren r' = nchildren r"
  by (auto simp: NColumn_doLocalSizing_def Column_doLocalSizing_def NColumn_sizing_loop_plain
        split: prod.splits)

lemma NColumn_adjustChildren_plain:
  assumes "plain_children (nchildren r)"
    and "NColumn_adjustChildren (\<lambda>x. x) (st, r) = (st', r')"
  shows "st' = st" and "to_Column r' = Column_adjustChildren st (to_Column r)"
    and "plain_children (nchildren r')"
proof -
  obtain natSum availCompr numSprings
    where m: "Column_measureChildren st (to_Column r) = (natSum, availCompr, numSprings)"
    by (cases "Column_measureChildren st (to_Column r)") auto
  have z: "plain_children (map (\<lambda>child. if obj_isSpring child then child\<lparr>obj_h := 0\<rparr> else child)
      (nchildren r))"
    using assms(1) by (intro plain_children_map) simp_all
  have res: "st' = st \<and> to_Column r' = Column_adjustChildren st (to_Column r) \<and>
      map obj_class (nchildren r') = map obj_class (nchildren r)"
    using assms(2)
    by (auto simp: NColumn_adjustChildren_def Column_adjustChildren_def NColumn_measureChildren_plain m
          NColumn_expandChildSprings_def Column_expandChildSprings_def NColumn_springs_loop_plain[OF assms(1)]
          NColumn_compressChildren_def Column_compressChildren_def NColumn_compress_loop_plain[OF z]
          Let_def o_def split: if_splits)
  then show "st' = st" "to_Column r' = Column_adjustChildren st (to_Column r)" by simp_all
  from res assms(1) show "plain_children (nchildren r')"
    using plain_children_class by blast
qed

lemma NColumn_completeLocalLayout_plain:
  assumes pl: "plain_children (nchildren r)"
    and res: "NColumn_completeLocalLayout (\<lambda>x. x) (st, r) = (st', r')"
  shows "Column_completeLocalLayout (st, to_Column r) = (st', to_Column r')"
    and "plain_children (nchildren r')"
proof -
  have "Column_completeLocalLayout (st, to_Column r) = (st', to_Column r') \<and> plain_children (nchildren r')"
  proof (cases "nchildren r = []")
    case True
    with res pl show ?thesis
      by (auto simp: NColumn_completeLocalLayout_def Column_completeLocalLayout_def)
  next
    case False
    obtain st1 r1 where a: "NColumn_adjustChildren (\<lambda>x. x) (st, r) = (st1, r1)" by force
    note a1 = NColumn_adjustChildren_plain[OF pl a]
    have hl: "NColumn_widths_loop st (nchildren r1) 0 =
       (st, map (\<lambda>c. c\<lparr>obj_w := nat_c (wConfig st c)\<rparr>) (nchildren r1),
        foldl max 0 (map (\<lambda>c. nat_c (wConfig st c)) (nchildren r1)))"
      by (rule NColumn_widths_loop_plain[OF a1(3)])
    have ch: "children (Column_adjustChildren st (to_Column r)) = map DrawnObject.truncate (nchildren r1)"
      using a1(2) by (metis to_Column_simps(1))
    have hr: "Column_widths_loop st (map DrawnObject.truncate (nchildren r1)) 0 =
       (map DrawnObject.truncate (map (\<lambda>c. c\<lparr>obj_w := nat_c (wConfig st c)\<rparr>) (nchildren r1)),
        foldl max 0 (map (\<lambda>c. nat_c (wConfig st c)) (nchildren r1)))"
      by (simp add: Column_widths_loop_eq o_def)
    from res False have 1: "Column_completeLocalLayout (st, to_Column r) = (st', to_Column r')"
      unfolding NColumn_completeLocalLayout_def Column_completeLocalLayout_def
      by (simp add: a a1(1) hl ch hr Let_def NColumn_stack_loop_plain a1(2)[symmetric] o_def)
        (auto simp: NColumn_stack_loop_plain o_def)
    have "map obj_class (nchildren r') = map obj_class (nchildren r1)"
      using res False
      by (auto simp: NColumn_completeLocalLayout_def a a1(1) hl Let_def NColumn_stack_loop_class o_def)
    then have "plain_children (nchildren r')"
      using a1(3) plain_children_class by blast
    with 1 show ?thesis by simp
  qed
  then show "Column_completeLocalLayout (st, to_Column r) = (st', to_Column r')"
    "plain_children (nchildren r')" by simp_all
qed

lemma NColumn_observe_plain: "NColumn_observe (st, r) = Column_observe (st, to_Column r)"
  by (simp add: NColumn_observe_def Column_observe_def observe_obj_def hConfig_def wConfig_def o_def)

lemma NColumn_layout_pass_plain:
  assumes pl: "plain_children (nchildren r)"
    and res: "NColumn_layout_pass (\<lambda>x. x) (st, r) = (st', r')"
  shows "Column_layout_pass (st, to_Column r) = (st', to_Column r')" and "plain_children (nchildren r')"
proof -
  obtain st1 r1 where s: "NColumn_doLocalSizing (\<lambda>x. x) (st, r) = (st1, r1)" by force
  note s1 = NColumn_doLocalSizing_plain[OF s]
  from s1 pl have pl1: "plain_children (nchildren r1)" by simp
  from res have c: "NColumn_completeLocalLayout (\<lambda>x. x) (st1, r1) = (st', r')"
    by (simp add: NColumn_layout_pass_def s)
  from NColumn_completeLocalLayout_plain[OF pl1 c] s1
  show "Column_layout_pass (st, to_Column r) = (st', to_Column r')" and "plain_children (nchildren r')"
    by (simp_all add: Column_layout_pass_def)
qed

lemma n_allocated_plain_column: "n_allocated st (nchildren r) \<Longrightarrow> allocated st (children (to_Column r))"
  by (auto simp: n_allocated_def allocated_def)












subsection \<open>A layout cycle of a column whose children are no containers, for every rounding\<close>

lemma NColumn_sizing_loop_eq:
  "NColumn_sizing_loop rd st cs (a, b, c, d, e, f) =
     (foldl max a (map (\<lambda>x. min_c (wConfig st x)) cs),
      foldl max b (map (\<lambda>x. nat_c (wConfig st x)) cs),
      foldl max c (map (\<lambda>x. max_c (wConfig st x)) cs),
      rd_sum rd d (map (\<lambda>x. min_c (hConfig st x)) cs),
      rd_sum rd e (map (\<lambda>x. nat_c (hConfig st x)) cs),
      rd_sum rd f (map (\<lambda>x. max_c (hConfig st x)) cs))"
  by (induction cs arbitrary: a b c d e f) simp_all

lemma NColumn_doLocalSizing_eq:
  "NColumn_doLocalSizing rd (st, r) =
     (st\<lparr>cells := (cells st)
           (next_ref st :=
              \<lparr>nat_c = rd_sum rd 0 (map (\<lambda>x. nat_c (hConfig st x)) (nchildren r)),
               min_c = rd_sum rd 0 (map (\<lambda>x. min_c (hConfig st x)) (nchildren r)),
               max_c = rd_sum rd 0 (map (\<lambda>x. max_c (hConfig st x)) (nchildren r))\<rparr>,
            Suc (next_ref st) :=
              \<lparr>nat_c = foldl max 0 (map (\<lambda>x. nat_c (wConfig st x)) (nchildren r)),
               min_c = foldl max 0 (map (\<lambda>x. min_c (wConfig st x)) (nchildren r)),
               max_c = foldl max 0 (map (\<lambda>x. max_c (wConfig st x)) (nchildren r))\<rparr>),
         next_ref := Suc (Suc (next_ref st))\<rparr>,
      r\<lparr>obj_hConfig := next_ref st, obj_wConfig := Suc (next_ref st)\<rparr>)"
  by (simp add: NColumn_doLocalSizing_def NColumn_sizing_loop_eq new_SizeConfig_def)

lemma NColumn_measure_loop_cong:
  assumes "list_all2 (\<lambda>a b. obj_isSpring a = obj_isSpring b \<and> hConfig st2 a = hConfig st b) cs2 cs"
  shows "NColumn_measure_loop rd st2 cs2 acc = NColumn_measure_loop rd st cs acc"
  using assms
proof (induction cs2 cs arbitrary: acc rule: list_all2_induct)
  case Nil
  then show ?case by simp
next
  case (Cons a cs2 b cs)
  then show ?case by (cases acc) (simp add: naturalW_def minW_def)
qed

lemma NColumn_compress_loop_eq:
  "plain_children cs \<Longrightarrow>
     NColumn_compress_loop rd S A st cs =
       (st, map (\<lambda>child. if \<not> obj_isSpring child
            then child\<lparr>obj_h := max (min_c (hConfig st child))
                   (rd (nat_c (hConfig st child) -
                      rd (rd (rd (nat_c (hConfig st child) - min_c (hConfig st child)) / A) * S)))\<rparr>
            else child) cs)"
  by (induction cs) (simp_all add: plain_children_def child_set_plain Let_def)

lemma NColumn_adjusted_child_refs [simp]:
  "obj_wConfig (NColumn_adjusted_child rd st W m c) = obj_wConfig c"
  "obj_hConfig (NColumn_adjusted_child rd st W m c) = obj_hConfig c"
  "obj_isSpring (NColumn_adjusted_child rd st W m c) = obj_isSpring c"
  "obj_class (NColumn_adjusted_child rd st W m c) = obj_class c"
  "obj_w (NColumn_adjusted_child rd st W m c) = obj_w c"
  "obj_y (NColumn_adjusted_child rd st W m c) = obj_y c"
  "obj_x (NColumn_adjusted_child rd st W m c) = obj_x c"
  by (cases m; simp add: NColumn_adjusted_child_def)+

lemma NColumn_adjustChildren_eq:
  assumes pl: "plain_children (nchildren r)"
  shows "NColumn_adjustChildren rd (st, r) =
     (st, r\<lparr>nchildren :=
        map (NColumn_adjusted_child rd st (obj_h r) (NColumn_measureChildren rd st r)) (nchildren r)\<rparr>)"
proof -
  obtain natSum availCompr numSprings
    where m: "NColumn_measureChildren rd st r = (natSum, availCompr, numSprings)"
    by (cases "NColumn_measureChildren rd st r") auto
  have z: "plain_children (map (\<lambda>child. if obj_isSpring child then child\<lparr>obj_h := 0\<rparr> else child)
      (nchildren r))"
    using pl by (intro plain_children_map) simp_all
  consider (expand0) "rd (obj_h r - natSum) \<ge> 0" "numSprings = 0"
    | (expand) "rd (obj_h r - natSum) \<ge> 0" "numSprings \<noteq> 0"
    | (stuck) "\<not> rd (obj_h r - natSum) \<ge> 0" "availCompr = 0"
    | (compress) "\<not> rd (obj_h r - natSum) \<ge> 0" "availCompr \<noteq> 0"
    by blast
  then show ?thesis
  proof cases
    case expand0
    then have "map (NColumn_adjusted_child rd st (obj_h r) (natSum, availCompr, numSprings)) (nchildren r) =
        nchildren r"
      by (intro map_idI) (simp add: NColumn_adjusted_child_def)
    with expand0 show ?thesis
      by (simp add: NColumn_adjustChildren_def m NColumn_expandChildSprings_def)
  next
    case expand
    then show ?thesis
      by (simp add: NColumn_adjustChildren_def m NColumn_expandChildSprings_def NColumn_adjusted_child_def
            NColumn_springs_loop_plain[OF pl] Let_def)
  next
    case stuck
    then show ?thesis
      by (simp add: NColumn_adjustChildren_def m NColumn_adjusted_child_def
            NColumn_springs_loop_plain[OF pl] Let_def)
  next
    case compress
    then show ?thesis
      by (simp add: NColumn_adjustChildren_def m NColumn_compressChildren_def NColumn_adjusted_child_def
            NColumn_springs_loop_plain[OF pl] NColumn_compress_loop_eq[OF z] Let_def hConfig_def)
  qed
qed

lemma NColumn_stack_length [simp]: "length (NColumn_stack_loop rd H j cs x) = length cs"
  by (induction cs arbitrary: x) (simp_all add: Let_def)

lemma NColumn_stack_nth:
  "i < length cs \<Longrightarrow>
     NColumn_stack_loop rd H j cs x ! i =
       (cs ! i)\<lparr>obj_y := rd_sum rd x (map obj_h (take i cs)),
                 obj_x := (if j = ''left'' then 0
                           else if j = ''center'' then rd (rd (H / 2) - rd (obj_w (cs ! i) / 2))
                           else if j = ''right'' then rd (H - obj_w (cs ! i))
                           else 0)\<rparr>"
proof (induction cs arbitrary: x i)
  case Nil
  then show ?case by simp
next
  case (Cons c cs)
  show ?case
  proof (cases i)
    case 0
    then show ?thesis by (simp add: Let_def)
  next
    case (Suc k)
    with Cons.prems have "k < length cs" by simp
    from Cons.IH[OF this] Suc show ?thesis by (simp add: Let_def)
  qed
qed

lemma NColumn_completeLocalLayout_eq:
  assumes "nchildren r \<noteq> []" and pl: "plain_children (nchildren r)"
  shows "NColumn_completeLocalLayout rd (st, r) =
     (st\<lparr>cells := (cells st)(obj_wConfig r := (cells st (obj_wConfig r))
              \<lparr>nat_c := foldl max 0 (map (\<lambda>c. nat_c (wConfig st c)) (nchildren r))\<rparr>)\<rparr>,
      r\<lparr>obj_w := foldl max 0 (map (\<lambda>c. nat_c (wConfig st c)) (nchildren r)),
        nchildren := NColumn_stack_loop rd (foldl max 0 (map (\<lambda>c. nat_c (wConfig st c)) (nchildren r)))
           (n_wJustification r)
           (map (\<lambda>c. (NColumn_adjusted_child rd st (obj_h r) (NColumn_measureChildren rd st r) c)
                   \<lparr>obj_w := nat_c (wConfig st c)\<rparr>) (nchildren r)) 0\<rparr>)"
proof -
  have pl1: "plain_children
      (map (NColumn_adjusted_child rd st (obj_h r) (NColumn_measureChildren rd st r)) (nchildren r))"
    using pl by (intro plain_children_map) simp_all
  from assms(1) show ?thesis
    by (simp add: NColumn_completeLocalLayout_def NColumn_adjustChildren_eq[OF pl]
          NColumn_widths_loop_plain[OF pl1] Let_def o_def wConfig_def)
qed

lemma NColumn_adjusted_child_fix:
  assumes "obj_isSpring c' = obj_isSpring c" "hConfig st2 c' = hConfig st c"
    "obj_h c' = obj_h (NColumn_adjusted_child rd st W m c)"
  shows "NColumn_adjusted_child rd st2 W m c' = c'"
  using assms by (cases m) (auto simp: NColumn_adjusted_child_def split: if_splits)

lemma NColumn_stack_idem:
  "NColumn_stack_loop rd H j (NColumn_stack_loop rd H j cs 0) 0 = NColumn_stack_loop rd H j cs 0"
proof (rule nth_equalityI)
  show "length (NColumn_stack_loop rd H j (NColumn_stack_loop rd H j cs 0) 0) =
      length (NColumn_stack_loop rd H j cs 0)"
    by simp
next
  fix i assume "i < length (NColumn_stack_loop rd H j (NColumn_stack_loop rd H j cs 0) 0)"
  then have i: "i < length cs" by simp
  have "map obj_h (take i (NColumn_stack_loop rd H j cs 0)) = map obj_h (take i cs)"
    using i by (intro nth_equalityI) (simp_all add: NColumn_stack_nth)
  then show "NColumn_stack_loop rd H j (NColumn_stack_loop rd H j cs 0) 0 ! i =
      NColumn_stack_loop rd H j cs 0 ! i"
    using i by (simp add: NColumn_stack_nth)
qed

lemma NColumn_pass_settled:
  assumes alloc: "n_allocated st (nchildren r)"
    and pl: "plain_children (nchildren r)"
    and ne: "nchildren r \<noteq> []"
    and fix_h: "\<forall>c\<in>set (nchildren r).
        NColumn_adjusted_child rd st (obj_h r) (NColumn_measureChildren rd st r) c = c"
    and fix_w: "\<forall>c\<in>set (nchildren r). obj_w c = nat_c (wConfig st c)"
    and fix_xy: "NColumn_stack_loop rd (obj_w r) (n_wJustification r) (nchildren r) 0 = nchildren r"
    and H: "obj_w r = foldl max 0 (map (\<lambda>c. nat_c (wConfig st c)) (nchildren r))"
    and hc: "wConfig st r =
              \<lparr>nat_c = foldl max 0 (map (\<lambda>x. nat_c (wConfig st x)) (nchildren r)),
               min_c = foldl max 0 (map (\<lambda>x. min_c (wConfig st x)) (nchildren r)),
               max_c = foldl max 0 (map (\<lambda>x. max_c (wConfig st x)) (nchildren r))\<rparr>"
    and wc: "hConfig st r =
              \<lparr>nat_c = rd_sum rd 0 (map (\<lambda>x. nat_c (hConfig st x)) (nchildren r)),
               min_c = rd_sum rd 0 (map (\<lambda>x. min_c (hConfig st x)) (nchildren r)),
               max_c = rd_sum rd 0 (map (\<lambda>x. max_c (hConfig st x)) (nchildren r))\<rparr>"
  shows "NColumn_observe (NColumn_layout_pass rd (st, r)) = NColumn_observe (st, r)"
proof -
  obtain st1 r1 where s1: "NColumn_doLocalSizing rd (st, r) = (st1, r1)" by force
  have r1: "r1 = r\<lparr>obj_hConfig := next_ref st, obj_wConfig := Suc (next_ref st)\<rparr>"
    and st1_old: "\<And>a. a < next_ref st \<Longrightarrow> cells st1 a = cells st a"
    and st1_w: "cells st1 (Suc (next_ref st)) = wConfig st r"
    and st1_h: "cells st1 (next_ref st) = hConfig st r"
    using s1 unfolding NColumn_doLocalSizing_eq hc wc by auto
  have agree: "\<And>c. c \<in> set (nchildren r) \<Longrightarrow> hConfig st1 c = hConfig st c \<and> wConfig st1 c = wConfig st c"
    using alloc st1_old by (simp add: n_allocated_def hConfig_def wConfig_def)
  have ch1: "nchildren r1 = nchildren r" "obj_h r1 = obj_h r" by (simp_all add: r1)
  have m1: "NColumn_measureChildren rd st1 r1 = NColumn_measureChildren rd st r"
    unfolding NColumn_measureChildren_def ch1
    by (rule NColumn_measure_loop_cong) (simp add: list_all2_same agree)
  have nat1: "map (\<lambda>c. nat_c (wConfig st1 c)) (nchildren r) = map (\<lambda>c. nat_c (wConfig st c)) (nchildren r)"
    by (simp add: agree)
  have L: "map (\<lambda>c. (NColumn_adjusted_child rd st1 (obj_h r) (NColumn_measureChildren rd st r) c)
                   \<lparr>obj_w := nat_c (wConfig st1 c)\<rparr>) (nchildren r) = nchildren r"
  proof (rule map_idI)
    fix c assume c: "c \<in> set (nchildren r)"
    have "NColumn_adjusted_child rd st1 (obj_h r) (NColumn_measureChildren rd st r) c = c"
      by (rule NColumn_adjusted_child_fix[where c = c and st = st]) (simp_all add: agree c fix_h)
    with c fix_w agree show "(NColumn_adjusted_child rd st1 (obj_h r) (NColumn_measureChildren rd st r) c)
                   \<lparr>obj_w := nat_c (wConfig st1 c)\<rparr> = c" by simp
  qed
  have ne1: "nchildren r1 \<noteq> []" using ne ch1 by simp
  have pl1: "plain_children (nchildren r1)" using pl ch1 by simp
  define st2 where
    "st2 = st1\<lparr>cells := (cells st1)
               (Suc (next_ref st) := (cells st1 (Suc (next_ref st)))\<lparr>nat_c := obj_w r\<rparr>)\<rparr>"
  define r2 where "r2 = r1\<lparr>obj_w := obj_w r, nchildren := nchildren r\<rparr>"
  have s2: "NColumn_completeLocalLayout rd (st1, r1) = (st2, r2)"
    unfolding NColumn_completeLocalLayout_eq[OF ne1 pl1] ch1 m1 nat1 L st2_def r2_def
    by (simp add: H[symmetric] fix_xy r1)
  note st2 = st2_def and r2 = r2_def
  have "(cells st1 (Suc (next_ref st)))\<lparr>nat_c := obj_w r\<rparr> = wConfig st r"
    unfolding st1_w by (simp add: hc H)
  then have st2_w: "cells st2 (Suc (next_ref st)) = wConfig st r" by (simp add: st2)
  have st2_h: "cells st2 (next_ref st) = hConfig st r" by (simp add: st2 st1_h)
  have agree2: "\<And>c. c \<in> set (nchildren r) \<Longrightarrow> hConfig st2 c = hConfig st c \<and> wConfig st2 c = wConfig st c"
    using alloc st1_old by (auto simp: n_allocated_def hConfig_def wConfig_def st2)
  have own: "hConfig st2 r2 = hConfig st r" "wConfig st2 r2 = wConfig st r"
    using st2_w st2_h by (simp_all add: hConfig_def wConfig_def r2 r1)
  have kids: "map (observe_obj st2) (nchildren r) = map (observe_obj st) (nchildren r)"
    by (rule map_cong[OF refl]) (simp add: observe_obj_def agree2)
  have "observe_obj st2 r2 = observe_obj st r"
    by (simp add: observe_obj_def own) (simp add: r2 r1)
  moreover have "nchildren r2 = nchildren r" "n_wJustification r2 = n_wJustification r"
    by (simp_all add: r2 r1)
  ultimately have "NColumn_observe (st2, r2) = NColumn_observe (st, r)"
    unfolding NColumn_observe_def by (simp only: prod.case kids)
  then show ?thesis by (simp add: NColumn_layout_pass_def s1 s2)
qed

lemma NColumn_pass_settles:
  assumes alloc: "n_allocated st (nchildren r)"
    and pl: "plain_children (nchildren r)"
    and ne: "nchildren r \<noteq> []"
    and pass: "NColumn_layout_pass rd (st, r) = (st', r')"
  shows "n_allocated st' (nchildren r')"
    and "plain_children (nchildren r')"
    and "nchildren r' \<noteq> []"
    and "\<forall>c\<in>set (nchildren r').
        NColumn_adjusted_child rd st' (obj_h r') (NColumn_measureChildren rd st' r') c = c"
    and "\<forall>c\<in>set (nchildren r'). obj_w c = nat_c (wConfig st' c)"
    and "NColumn_stack_loop rd (obj_w r') (n_wJustification r') (nchildren r') 0 = nchildren r'"
    and "obj_w r' = foldl max 0 (map (\<lambda>c. nat_c (wConfig st' c)) (nchildren r'))"
    and "wConfig st' r' =
              \<lparr>nat_c = foldl max 0 (map (\<lambda>x. nat_c (wConfig st' x)) (nchildren r')),
               min_c = foldl max 0 (map (\<lambda>x. min_c (wConfig st' x)) (nchildren r')),
               max_c = foldl max 0 (map (\<lambda>x. max_c (wConfig st' x)) (nchildren r'))\<rparr>"
    and "hConfig st' r' =
              \<lparr>nat_c = rd_sum rd 0 (map (\<lambda>x. nat_c (hConfig st' x)) (nchildren r')),
               min_c = rd_sum rd 0 (map (\<lambda>x. min_c (hConfig st' x)) (nchildren r')),
               max_c = rd_sum rd 0 (map (\<lambda>x. max_c (hConfig st' x)) (nchildren r'))\<rparr>"
proof -
  define n where "n = next_ref st"
  define W where "W = obj_h r"
  define j where "j = n_wJustification r"
  define m where "m = NColumn_measureChildren rd st r"
  define H where "H = foldl max 0 (map (\<lambda>c. nat_c (wConfig st c)) (nchildren r))"
  define Hc where "Hc =
     \<lparr>nat_c = foldl max 0 (map (\<lambda>x. nat_c (wConfig st x)) (nchildren r)),
      min_c = foldl max 0 (map (\<lambda>x. min_c (wConfig st x)) (nchildren r)),
      max_c = foldl max 0 (map (\<lambda>x. max_c (wConfig st x)) (nchildren r))\<rparr>"
  define Wc where "Wc =
     \<lparr>nat_c = rd_sum rd 0 (map (\<lambda>x. nat_c (hConfig st x)) (nchildren r)),
      min_c = rd_sum rd 0 (map (\<lambda>x. min_c (hConfig st x)) (nchildren r)),
      max_c = rd_sum rd 0 (map (\<lambda>x. max_c (hConfig st x)) (nchildren r))\<rparr>"
  define st1 where "st1 = st\<lparr>cells := (cells st)(n := Wc, Suc n := Hc), next_ref := Suc (Suc n)\<rparr>"
  define r1 where "r1 = r\<lparr>obj_hConfig := n, obj_wConfig := Suc n\<rparr>"
  have s1: "NColumn_doLocalSizing rd (st, r) = (st1, r1)"
    by (simp add: NColumn_doLocalSizing_eq st1_def r1_def Hc_def Wc_def n_def)
  have agree: "\<And>c. c \<in> set (nchildren r) \<Longrightarrow> hConfig st1 c = hConfig st c \<and> wConfig st1 c = wConfig st c"
    using alloc by (auto simp: n_allocated_def hConfig_def wConfig_def st1_def n_def)
  have ch1: "nchildren r1 = nchildren r" "obj_h r1 = W" "n_wJustification r1 = j"
    by (simp_all add: r1_def W_def j_def)
  have m1: "NColumn_measureChildren rd st1 r1 = m"
    unfolding NColumn_measureChildren_def ch1 m_def
    by (rule NColumn_measure_loop_cong) (simp add: list_all2_same agree)
  have nat1: "map (\<lambda>c. nat_c (wConfig st1 c)) (nchildren r) = map (\<lambda>c. nat_c (wConfig st c)) (nchildren r)"
    by (simp add: agree)
  define L where "L = map (\<lambda>c. (NColumn_adjusted_child rd st W m c)\<lparr>obj_w := nat_c (wConfig st c)\<rparr>) (nchildren r)"
  have L1: "map (\<lambda>c. (NColumn_adjusted_child rd st1 W m c)\<lparr>obj_w := nat_c (wConfig st1 c)\<rparr>) (nchildren r) = L"
    unfolding L_def
  proof (rule map_cong[OF refl])
    fix c assume c: "c \<in> set (nchildren r)"
    then have "NColumn_adjusted_child rd st1 W m c = NColumn_adjusted_child rd st W m c"
      using agree[OF c] by (cases m) (simp add: NColumn_adjusted_child_def)
    with agree[OF c] show "(NColumn_adjusted_child rd st1 W m c)\<lparr>obj_w := nat_c (wConfig st1 c)\<rparr> =
        (NColumn_adjusted_child rd st W m c)\<lparr>obj_w := nat_c (wConfig st c)\<rparr>" by simp
  qed
  have ne1: "nchildren r1 \<noteq> []" using ne ch1 by simp
  have pl1: "plain_children (nchildren r1)" using pl ch1 by simp
  have st': "st' = st1\<lparr>cells := (cells st1)(Suc n := (cells st1 (Suc n))\<lparr>nat_c := H\<rparr>)\<rparr>"
    and r': "r' = r1\<lparr>obj_w := H, nchildren := NColumn_stack_loop rd H j L 0\<rparr>"
    using pass unfolding NColumn_layout_pass_def s1 NColumn_completeLocalLayout_eq[OF ne1 pl1] ch1 m1 nat1 L1
    by (simp_all add: H_def r1_def)
  have cells': "cells st' (Suc n) = Hc" "cells st' n = Wc" "\<And>a. a < n \<Longrightarrow> cells st' a = cells st a"
    by (simp_all add: st' st1_def Hc_def H_def)
  have own: "obj_w r' = H" "obj_h r' = W" "n_wJustification r' = j" "wConfig st' r' = Hc"
    "hConfig st' r' = Wc" "nchildren r' = NColumn_stack_loop rd H j L 0"
    by (simp_all add: r' r1_def W_def j_def wConfig_def hConfig_def cells')
  have rel: "list_all2 (\<lambda>c' c. obj_isSpring c' = obj_isSpring c \<and> hConfig st' c' = hConfig st c \<and>
                 wConfig st' c' = wConfig st c \<and> obj_h c' = obj_h (NColumn_adjusted_child rd st W m c) \<and>
                 obj_w c' = nat_c (wConfig st c) \<and> obj_hConfig c' < n \<and> obj_wConfig c' < n \<and>
                 obj_class c' = obj_class c)
               (nchildren r') (nchildren r)"
    unfolding own list_all2_conv_all_nth
  proof (intro conjI allI impI)
    show "length (NColumn_stack_loop rd H j L 0) = length (nchildren r)" by (simp add: L_def)
  next
    fix i assume "i < length (NColumn_stack_loop rd H j L 0)"
    then have i: "i < length (nchildren r)" by (simp add: L_def)
    then have "nchildren r ! i \<in> set (nchildren r)" by simp
    then have a: "obj_hConfig (nchildren r ! i) < n" "obj_wConfig (nchildren r ! i) < n"
      using alloc by (simp_all add: n_allocated_def n_def)
    from i have Li: "i < length L" by (simp add: L_def)
    from i a cells'(3) show
      "obj_isSpring (NColumn_stack_loop rd H j L 0 ! i) = obj_isSpring (nchildren r ! i)"
      "hConfig st' (NColumn_stack_loop rd H j L 0 ! i) = hConfig st (nchildren r ! i)"
      "wConfig st' (NColumn_stack_loop rd H j L 0 ! i) = wConfig st (nchildren r ! i)"
      "obj_h (NColumn_stack_loop rd H j L 0 ! i) = obj_h (NColumn_adjusted_child rd st W m (nchildren r ! i))"
      "obj_w (NColumn_stack_loop rd H j L 0 ! i) = nat_c (wConfig st (nchildren r ! i))"
      "obj_hConfig (NColumn_stack_loop rd H j L 0 ! i) < n"
      "obj_wConfig (NColumn_stack_loop rd H j L 0 ! i) < n"
      "obj_class (NColumn_stack_loop rd H j L 0 ! i) = obj_class (nchildren r ! i)"
      by (simp_all add: NColumn_stack_nth[OF Li] hConfig_def wConfig_def)
        (simp_all add: L_def wConfig_def)
  qed
  have maps:
    "map (\<lambda>x. nat_c (wConfig st' x)) (nchildren r') = map (\<lambda>x. nat_c (wConfig st x)) (nchildren r)"
    "map (\<lambda>x. min_c (wConfig st' x)) (nchildren r') = map (\<lambda>x. min_c (wConfig st x)) (nchildren r)"
    "map (\<lambda>x. max_c (wConfig st' x)) (nchildren r') = map (\<lambda>x. max_c (wConfig st x)) (nchildren r)"
    "map (\<lambda>x. nat_c (hConfig st' x)) (nchildren r') = map (\<lambda>x. nat_c (hConfig st x)) (nchildren r)"
    "map (\<lambda>x. min_c (hConfig st' x)) (nchildren r') = map (\<lambda>x. min_c (hConfig st x)) (nchildren r)"
    "map (\<lambda>x. max_c (hConfig st' x)) (nchildren r') = map (\<lambda>x. max_c (hConfig st x)) (nchildren r)"
    by (rule list_all2_map_eq[OF rel]; simp)+
  have m': "NColumn_measureChildren rd st' r' = m"
    unfolding NColumn_measureChildren_def m_def
    by (rule NColumn_measure_loop_cong) (rule list_all2_mono[OF rel], simp)
  have nr: "next_ref st' = Suc (Suc n)" by (simp add: st' st1_def)
  show "n_allocated st' (nchildren r')"
    unfolding n_allocated_def nr
  proof
    fix c' assume "c' \<in> set (nchildren r')"
    then obtain i where i: "i < length (nchildren r')" "c' = nchildren r' ! i"
      by (auto simp: in_set_conv_nth)
    with rel have "obj_hConfig c' < n" "obj_wConfig c' < n"
      by (simp_all add: list_all2_conv_all_nth)
    then show "obj_wConfig c' < Suc (Suc n) \<and> obj_hConfig c' < Suc (Suc n)" by simp
  qed
  have "map obj_class (nchildren r') = map obj_class (nchildren r)"
    by (rule list_all2_map_eq[OF rel]) simp
  then show "plain_children (nchildren r')"
    using pl by (rule plain_children_class)
  have "length (nchildren r') = length (nchildren r)" by (simp add: own L_def)
  with ne show "nchildren r' \<noteq> []" by auto
  show "\<forall>c\<in>set (nchildren r').
      NColumn_adjusted_child rd st' (obj_h r') (NColumn_measureChildren rd st' r') c = c"
    unfolding m' own(2)
  proof
    fix c' assume "c' \<in> set (nchildren r')"
    then obtain i where i: "i < length (nchildren r')" "c' = nchildren r' ! i"
      by (auto simp: in_set_conv_nth)
    with rel have "obj_isSpring c' = obj_isSpring (nchildren r ! i)"
      "hConfig st' c' = hConfig st (nchildren r ! i)"
      "obj_h c' = obj_h (NColumn_adjusted_child rd st W m (nchildren r ! i))"
      by (simp_all add: list_all2_conv_all_nth)
    then show "NColumn_adjusted_child rd st' W m c' = c'" by (rule NColumn_adjusted_child_fix)
  qed
  show "\<forall>c\<in>set (nchildren r'). obj_w c = nat_c (wConfig st' c)"
    using rel by (auto simp: list_all2_conv_all_nth in_set_conv_nth)
  show "NColumn_stack_loop rd (obj_w r') (n_wJustification r') (nchildren r') 0 = nchildren r'"
    unfolding own by (rule NColumn_stack_idem)
  show "obj_w r' = foldl max 0 (map (\<lambda>c. nat_c (wConfig st' c)) (nchildren r'))"
    unfolding maps own(1) H_def ..
  show "wConfig st' r' =
              \<lparr>nat_c = foldl max 0 (map (\<lambda>x. nat_c (wConfig st' x)) (nchildren r')),
               min_c = foldl max 0 (map (\<lambda>x. min_c (wConfig st' x)) (nchildren r')),
               max_c = foldl max 0 (map (\<lambda>x. max_c (wConfig st' x)) (nchildren r'))\<rparr>"
    unfolding maps own(4) Hc_def ..
  show "hConfig st' r' =
              \<lparr>nat_c = rd_sum rd 0 (map (\<lambda>x. nat_c (hConfig st' x)) (nchildren r')),
               min_c = rd_sum rd 0 (map (\<lambda>x. min_c (hConfig st' x)) (nchildren r')),
               max_c = rd_sum rd 0 (map (\<lambda>x. max_c (hConfig st' x)) (nchildren r'))\<rparr>"
    unfolding maps own(5) Wc_def ..
qed

lemma NColumn_pass_idem:
  assumes alloc: "n_allocated st (nchildren r)" and pl: "plain_children (nchildren r)"
  shows "NColumn_observe (NColumn_layout_pass rd (NColumn_layout_pass rd (st, r))) =
         NColumn_observe (NColumn_layout_pass rd (st, r))"
proof (cases "nchildren r = []")
  case True
  then show ?thesis
    by (simp add: NColumn_layout_pass_def NColumn_doLocalSizing_eq NColumn_completeLocalLayout_def
          NColumn_observe_def observe_obj_def hConfig_def wConfig_def)
next
  case False
  obtain st' r' where p: "NColumn_layout_pass rd (st, r) = (st', r')" by force
  show ?thesis
    unfolding p by (rule NColumn_pass_settled[OF NColumn_pass_settles[OF alloc pl False p]])
qed

subsection \<open>The cross axis of a column, for children of any class\<close>









section \<open>The claims\<close>

lemmas example_defs =
  example_store_def spring_row_def tight_row_def stuck_row_def
  spring_column_def tight_column_def stuck_column_def
  wConfig_def hConfig_def naturalW_def minW_def

lemmas NRow_eval =
  NRow_layout_pass_def NRow_doLocalSizing_def NRow_completeLocalLayout_def NRow_adjustChildren_def
  NRow_measureChildren_def NRow_expandChildSprings_def NRow_compressChildren_def NRow_observe_def
  NRow_set_w_def observe_obj_def
  child_set_w_def child_set_h_def SizeConfig_fixed_def new_SizeConfig_def
  wConfig_def hConfig_def naturalW_def minW_def Let_def



text \<open>
  Claim C1.  Let \<open>availCompr\<close> be the value that \<^verbatim>\<open>_measureChildren\<close> returns, let
  \<open>0 < S \<le> availCompr\<close>, and let the primary-axis configuration of every child that is no
  spring be well formed.  After \<^verbatim>\<open>_compressChildren(S, availCompr)\<close> the primary-axis size
  of every such child is \<open>max min (nat - (nat - min) / availCompr * S)\<close>; over these children
  the differences between natural and assigned size add up to \<open>S\<close>; and none of them is
  smaller than its configured minimum.  For Row the primary axis is the width, for Column the
  height.
\<close>

theorem compressChildren_proportional:
  "(Row_measureChildren st r = (natSum, availCompr, numSprings) \<and> 0 < S \<and> S \<le> availCompr \<and>
    (\<forall>c\<in>set (children r). \<not> obj_isSpring c \<longrightarrow> wellformed (wConfig st c)) \<longrightarrow>
      length (children (Row_compressChildren st S availCompr r)) = length (children r) \<and>
      (\<forall>i < length (children r). \<not> obj_isSpring (children r ! i) \<longrightarrow>
         obj_w (children (Row_compressChildren st S availCompr r) ! i) =
           max (min_c (wConfig st (children r ! i)))
             (nat_c (wConfig st (children r ! i)) -
                (nat_c (wConfig st (children r ! i)) - min_c (wConfig st (children r ! i)))
                   / availCompr * S)) \<and>
      (\<Sum>c\<leftarrow>filter (\<lambda>c. \<not> obj_isSpring c) (children (Row_compressChildren st S availCompr r)).
          nat_c (wConfig st c) - obj_w c) = S \<and>
      (\<forall>c\<in>set (children (Row_compressChildren st S availCompr r)).
         \<not> obj_isSpring c \<longrightarrow> min_c (wConfig st c) \<le> obj_w c)) \<and>
   (Column_measureChildren st col = (natSum, availCompr, numSprings) \<and> 0 < S \<and> S \<le> availCompr \<and>
    (\<forall>c\<in>set (children col). \<not> obj_isSpring c \<longrightarrow> wellformed (hConfig st c)) \<longrightarrow>
      length (children (Column_compressChildren st S availCompr col)) = length (children col) \<and>
      (\<forall>i < length (children col). \<not> obj_isSpring (children col ! i) \<longrightarrow>
         obj_h (children (Column_compressChildren st S availCompr col) ! i) =
           max (min_c (hConfig st (children col ! i)))
             (nat_c (hConfig st (children col ! i)) -
                (nat_c (hConfig st (children col ! i)) - min_c (hConfig st (children col ! i)))
                   / availCompr * S)) \<and>
      (\<Sum>c\<leftarrow>filter (\<lambda>c. \<not> obj_isSpring c) (children (Column_compressChildren st S availCompr col)).
          nat_c (hConfig st c) - obj_h c) = S \<and>
      (\<forall>c\<in>set (children (Column_compressChildren st S availCompr col)).
         \<not> obj_isSpring c \<longrightarrow> min_c (hConfig st c) \<le> obj_h c))"
  using Row_compress[of st r natSum availCompr numSprings S]
    Column_compress[of st col natSum availCompr numSprings S]
  by blast

text \<open>
  The row of width 10 with two boxes of natural width 8 and minimum widths 2 and 4: the
  compressibility is 10, the shortfall 6, and the boxes end at 4.4 and 5.6.
\<close>

theorem compressChildren_proportional_witness:
  "Row_measureChildren example_store tight_row = (16, 10, 0) \<and> (0::real) < 6 \<and> (6::real) \<le> 10 \<and>
   list_all (\<lambda>c. wellformed (wConfig example_store c)) (children tight_row) \<and>
   map obj_w (children (Row_compressChildren example_store 6 10 tight_row)) = [22 / 5, 28 / 5] \<and>
   (\<Sum>c\<leftarrow>filter (\<lambda>c. \<not> obj_isSpring c) (children (Row_compressChildren example_store 6 10 tight_row)).
       nat_c (wConfig example_store c) - obj_w c) = 6 \<and>
   Column_measureChildren example_store tight_column = (16, 10, 0) \<and>
   list_all (\<lambda>c. wellformed (hConfig example_store c)) (children tight_column) \<and>
   map obj_h (children (Column_compressChildren example_store 6 10 tight_column)) = [22 / 5, 28 / 5] \<and>
   (\<Sum>c\<leftarrow>filter (\<lambda>c. \<not> obj_isSpring c)
         (children (Column_compressChildren example_store 6 10 tight_column)).
       nat_c (hConfig example_store c) - obj_h c) = 6"
  using compressChildren_proportional[where st = example_store and r = tight_row and natSum = 16
      and availCompr = 10 and numSprings = 0 and S = 6 and col = tight_column]
  by (simp add: example_defs Row_measureChildren_def Column_measureChildren_def wellformed_def
        Row_compressChildren_def Column_compressChildren_def Let_def)

text \<open>
  Claim C2.  When the size configurations of all children are well formed, after
  \<^verbatim>\<open>_doLocalSizing\<close> the primary-axis configuration of the container is the componentwise
  sum over all children, springs included, and its cross-axis configuration is the
  componentwise maximum over all children; without children all six components are 0.
\<close>

theorem doLocalSizing_sum_and_max:
  "(Row_doLocalSizing (st, r) = (st', r') \<and>
    (\<forall>c\<in>set (children r). wellformed (wConfig st c) \<and> wellformed (hConfig st c)) \<longrightarrow>
      wConfig st' r' =
        \<lparr>nat_c = (\<Sum>c\<leftarrow>children r. nat_c (wConfig st c)),
         min_c = (\<Sum>c\<leftarrow>children r. min_c (wConfig st c)),
         max_c = (\<Sum>c\<leftarrow>children r. max_c (wConfig st c))\<rparr> \<and>
      hConfig st' r' =
        (if children r = [] then \<lparr>nat_c = 0, min_c = 0, max_c = 0\<rparr>
         else \<lparr>nat_c = Max ((\<lambda>c. nat_c (hConfig st c)) ` set (children r)),
               min_c = Max ((\<lambda>c. min_c (hConfig st c)) ` set (children r)),
               max_c = Max ((\<lambda>c. max_c (hConfig st c)) ` set (children r))\<rparr>) \<and>
      (children r = [] \<longrightarrow> wConfig st' r' = \<lparr>nat_c = 0, min_c = 0, max_c = 0\<rparr>)) \<and>
   (Column_doLocalSizing (st, col) = (st'', col') \<and>
    (\<forall>c\<in>set (children col). wellformed (wConfig st c) \<and> wellformed (hConfig st c)) \<longrightarrow>
      hConfig st'' col' =
        \<lparr>nat_c = (\<Sum>c\<leftarrow>children col. nat_c (hConfig st c)),
         min_c = (\<Sum>c\<leftarrow>children col. min_c (hConfig st c)),
         max_c = (\<Sum>c\<leftarrow>children col. max_c (hConfig st c))\<rparr> \<and>
      wConfig st'' col' =
        (if children col = [] then \<lparr>nat_c = 0, min_c = 0, max_c = 0\<rparr>
         else \<lparr>nat_c = Max ((\<lambda>c. nat_c (wConfig st c)) ` set (children col)),
               min_c = Max ((\<lambda>c. min_c (wConfig st c)) ` set (children col)),
               max_c = Max ((\<lambda>c. max_c (wConfig st c)) ` set (children col))\<rparr>) \<and>
      (children col = [] \<longrightarrow> hConfig st'' col' = \<lparr>nat_c = 0, min_c = 0, max_c = 0\<rparr>))"
  using Row_sizing[of st r st' r'] Column_sizing[of st col st'' col']
  by (intro conjI impI; elim conjE; simp)

text \<open>
  The strut, spring, strut layout: the primary axis adds up to natural 40, minimum 40 and
  maximum 1040, the cross axis takes the largest child, 7.
\<close>

theorem doLocalSizing_sum_and_max_witness:
  "list_all (\<lambda>c. wellformed (wConfig example_store c) \<and> wellformed (hConfig example_store c))
     (children spring_row) \<and>
   wConfig (fst (Row_doLocalSizing (example_store, spring_row)))
      (snd (Row_doLocalSizing (example_store, spring_row))) =
     \<lparr>nat_c = 40, min_c = 40, max_c = 1040\<rparr> \<and>
   hConfig (fst (Row_doLocalSizing (example_store, spring_row)))
      (snd (Row_doLocalSizing (example_store, spring_row))) =
     \<lparr>nat_c = 7, min_c = 7, max_c = 7\<rparr> \<and>
   list_all (\<lambda>c. wellformed (wConfig example_store c) \<and> wellformed (hConfig example_store c))
     (children spring_column) \<and>
   hConfig (fst (Column_doLocalSizing (example_store, spring_column)))
      (snd (Column_doLocalSizing (example_store, spring_column))) =
     \<lparr>nat_c = 40, min_c = 40, max_c = 1040\<rparr> \<and>
   wConfig (fst (Column_doLocalSizing (example_store, spring_column)))
      (snd (Column_doLocalSizing (example_store, spring_column))) =
     \<lparr>nat_c = 7, min_c = 7, max_c = 7\<rparr>"
  using doLocalSizing_sum_and_max[where st = example_store and r = spring_row
      and st' = "fst (Row_doLocalSizing (example_store, spring_row))"
      and r' = "snd (Row_doLocalSizing (example_store, spring_row))"
      and col = spring_column
      and st'' = "fst (Column_doLocalSizing (example_store, spring_column))"
      and col' = "snd (Column_doLocalSizing (example_store, spring_column))"]
  by (simp add: example_defs wellformed_def Row_doLocalSizing_def Column_doLocalSizing_def
        new_SizeConfig_def)

text \<open>
  Claim C3.  \<^verbatim>\<open>_expandChildSprings(E, n)\<close> changes nothing when \<open>n = 0\<close>.  When
  \<open>n > 0\<close> it gives every spring child the primary-axis size \<open>E / n\<close> and leaves every
  other child as it was; and when \<open>n\<close> is the number of springs that
  \<^verbatim>\<open>_measureChildren\<close> counted, the sizes of the springs add up to \<open>E\<close>.  This holds for
  every \<open>E\<close>, in particular for \<open>E \<ge> 0\<close>, for Row (widths) and for Column (heights).
\<close>

theorem expandChildSprings_even_split:
  "(n = 0 \<longrightarrow> Row_expandChildSprings E n r = r) \<and>
   (0 < n \<longrightarrow>
      length (children (Row_expandChildSprings E n r)) = length (children r) \<and>
      (\<forall>i < length (children r).
         (obj_isSpring (children r ! i) \<longrightarrow>
            children (Row_expandChildSprings E n r) ! i = (children r ! i)\<lparr>obj_w := E / real n\<rparr>) \<and>
         (\<not> obj_isSpring (children r ! i) \<longrightarrow>
            children (Row_expandChildSprings E n r) ! i = children r ! i))) \<and>
   (0 < n \<and> Row_measureChildren st r = (natSum, availCompr, n) \<longrightarrow>
      (\<Sum>c\<leftarrow>filter obj_isSpring (children (Row_expandChildSprings E n r)). obj_w c) = E) \<and>
   (n = 0 \<longrightarrow> Column_expandChildSprings E n col = col) \<and>
   (0 < n \<longrightarrow>
      length (children (Column_expandChildSprings E n col)) = length (children col) \<and>
      (\<forall>i < length (children col).
         (obj_isSpring (children col ! i) \<longrightarrow>
            children (Column_expandChildSprings E n col) ! i =
              (children col ! i)\<lparr>obj_h := E / real n\<rparr>) \<and>
         (\<not> obj_isSpring (children col ! i) \<longrightarrow>
            children (Column_expandChildSprings E n col) ! i = children col ! i))) \<and>
   (0 < n \<and> Column_measureChildren st col = (natSum, availCompr, n) \<longrightarrow>
      (\<Sum>c\<leftarrow>filter obj_isSpring (children (Column_expandChildSprings E n col)). obj_h c) = E)"
  using Row_expand[of n E r] Row_expand_sum[of st r natSum availCompr n E]
    Column_expand[of n E col] Column_expand_sum[of st col natSum availCompr n E]
  by blast

text \<open>
  The row of width 100 with one spring between two struts of 20: the excess is 60, and the one
  spring takes all of it.
\<close>

theorem expandChildSprings_even_split_witness:
  "0 < (1::nat) \<and>
   Row_measureChildren example_store spring_row = (40, 0, 1) \<and>
   map obj_w (children (Row_expandChildSprings 60 1 spring_row)) = [20, 60, 20] \<and>
   (\<Sum>c\<leftarrow>filter obj_isSpring (children (Row_expandChildSprings 60 1 spring_row)). obj_w c) = 60 \<and>
   Column_measureChildren example_store spring_column = (40, 0, 1) \<and>
   map obj_h (children (Column_expandChildSprings 60 1 spring_column)) = [20, 60, 20] \<and>
   (\<Sum>c\<leftarrow>filter obj_isSpring (children (Column_expandChildSprings 60 1 spring_column)). obj_h c) = 60"
  using expandChildSprings_even_split[where n = 1 and E = 60 and r = spring_row
      and st = example_store and natSum = 40 and availCompr = 0 and col = spring_column]
  by (simp add: example_defs Row_measureChildren_def Column_measureChildren_def
        Row_expandChildSprings_def Column_expandChildSprings_def)

text \<open>
  Claim C4, as the code has it.  When the excess \<open>containerSize - natSum\<close> is not negative,
  \<^verbatim>\<open>_adjustChildren\<close> leaves every child that is no spring exactly as it was: the method
  assigns sizes to springs only.  So such a child has its natural primary-axis size after the
  call if it had it before the call.
\<close>

theorem adjustChildren_excess_keeps_others:
  "(Row_measureChildren st r = (natSum, availCompr, numSprings) \<and> obj_w r - natSum \<ge> 0 \<longrightarrow>
      length (children (Row_adjustChildren st r)) = length (children r) \<and>
      (\<forall>i < length (children r). \<not> obj_isSpring (children r ! i) \<longrightarrow>
         children (Row_adjustChildren st r) ! i = children r ! i \<and>
         (obj_w (children r ! i) = nat_c (wConfig st (children r ! i)) \<longrightarrow>
            obj_w (children (Row_adjustChildren st r) ! i) =
              nat_c (wConfig st (children (Row_adjustChildren st r) ! i))))) \<and>
   (Column_measureChildren st col = (natSum, availCompr, numSprings) \<and> obj_h col - natSum \<ge> 0 \<longrightarrow>
      length (children (Column_adjustChildren st col)) = length (children col) \<and>
      (\<forall>i < length (children col). \<not> obj_isSpring (children col ! i) \<longrightarrow>
         children (Column_adjustChildren st col) ! i = children col ! i \<and>
         (obj_h (children col ! i) = nat_c (hConfig st (children col ! i)) \<longrightarrow>
            obj_h (children (Column_adjustChildren st col) ! i) =
              nat_c (hConfig st (children (Column_adjustChildren st col) ! i)))))"
  using Row_adjust_keeps[of st r natSum availCompr numSprings]
    Column_adjust_keeps[of st col natSum availCompr numSprings]
  by (intro conjI impI; elim conjE; simp)

text \<open>
  The row of width 100 with a spring between two struts of 20: the struts are untouched, the
  spring takes the excess of 60.
\<close>

theorem adjustChildren_excess_keeps_others_witness:
  "Row_measureChildren example_store spring_row = (40, 0, 1) \<and>
   obj_w spring_row - 40 \<ge> 0 \<and>
   map obj_w (children (Row_adjustChildren example_store spring_row)) = [20, 60, 20] \<and>
   children (Row_adjustChildren example_store spring_row) ! 0 = children spring_row ! 0 \<and>
   children (Row_adjustChildren example_store spring_row) ! 2 = children spring_row ! 2 \<and>
   Column_measureChildren example_store spring_column = (40, 0, 1) \<and>
   obj_h spring_column - 40 \<ge> 0 \<and>
   map obj_h (children (Column_adjustChildren example_store spring_column)) = [20, 60, 20] \<and>
   children (Column_adjustChildren example_store spring_column) ! 0 = children spring_column ! 0 \<and>
   children (Column_adjustChildren example_store spring_column) ! 2 = children spring_column ! 2"
  using adjustChildren_excess_keeps_others[where st = example_store and r = spring_row
      and natSum = 40 and availCompr = 0 and numSprings = 1 and col = spring_column]
  by (simp add: example_defs Row_measureChildren_def Column_measureChildren_def
        Row_adjustChildren_def Column_adjustChildren_def
        Row_expandChildSprings_def Column_expandChildSprings_def)

text \<open>
  The claim as it was stated, that every such child ends at its natural size, fails for a child
  whose size is not its natural size when the method is called.  A row of width 4 holds one box
  of natural width 5 and minimum width 3; adjusting compresses the box to 4.  The row is then
  widened to 100 through its setter and adjusted again: the excess is 95, there is no spring,
  and the box stays at 4 although its natural width is 5.
\<close>

theorem adjustChildren_excess_counterexample:
  "Row_measureChildren (fst widened_row) (snd widened_row) = (5, 2, 0) \<and>
   obj_w (snd widened_row) - 5 \<ge> 0 \<and>
   \<not> obj_isSpring (children (Row_adjustChildren (fst widened_row) (snd widened_row)) ! 0) \<and>
   obj_w (children (Row_adjustChildren (fst widened_row) (snd widened_row)) ! 0) = 4 \<and>
   nat_c (wConfig (fst widened_row)
      (children (Row_adjustChildren (fst widened_row) (snd widened_row)) ! 0)) = 5 \<and>
   obj_w (children (Row_adjustChildren (fst widened_row) (snd widened_row)) ! 0) \<noteq>
     nat_c (wConfig (fst widened_row)
       (children (Row_adjustChildren (fst widened_row) (snd widened_row)) ! 0))"
  by (simp add: widened_row_def narrow_store_def narrow_row_def Row_set_w_def SizeConfig_fixed_def
        new_SizeConfig_def Row_measureChildren_def Row_adjustChildren_def Row_expandChildSprings_def
        Row_compressChildren_def wConfig_def naturalW_def minW_def Let_def)



text \<open>
  Claim C6.  After \<^verbatim>\<open>_completeLocalLayout\<close> on a container with at least one child, the
  cross-axis size of every child is that child's own cross-axis natural size, and the
  cross-axis size of the container is the maximum of the children's cross-axis natural sizes.
  The natural sizes are read from the store in which the method starts; they are the same in
  the store it leaves when no child shares its cross-axis configuration object with the
  container, whose field \<^verbatim>\<open>nat\<close> the method assigns.  The maximum is reached because natural
  sizes are not negative, as the data model has it: the code starts its running maximum at 0.
\<close>

theorem completeLocalLayout_cross_sizes:
  "(children r \<noteq> [] \<and> Row_completeLocalLayout (st, r) = (st', r') \<longrightarrow>
      length (children r') = length (children r) \<and>
      (\<forall>i < length (children r).
         obj_h (children r' ! i) = nat_c (hConfig st (children r ! i)) \<and>
         obj_hConfig (children r' ! i) = obj_hConfig (children r ! i)) \<and>
      ((\<forall>c\<in>set (children r). obj_hConfig c \<noteq> obj_hConfig r) \<longrightarrow>
         (\<forall>i < length (children r').
            obj_h (children r' ! i) = nat_c (hConfig st' (children r' ! i)))) \<and>
      ((\<forall>c\<in>set (children r). 0 \<le> nat_c (hConfig st c)) \<longrightarrow>
         obj_h r' = Max ((\<lambda>c. nat_c (hConfig st c)) ` set (children r)))) \<and>
   (children col \<noteq> [] \<and> Column_completeLocalLayout (st, col) = (st'', col') \<longrightarrow>
      length (children col') = length (children col) \<and>
      (\<forall>i < length (children col).
         obj_w (children col' ! i) = nat_c (wConfig st (children col ! i)) \<and>
         obj_wConfig (children col' ! i) = obj_wConfig (children col ! i)) \<and>
      ((\<forall>c\<in>set (children col). obj_wConfig c \<noteq> obj_wConfig col) \<longrightarrow>
         (\<forall>i < length (children col').
            obj_w (children col' ! i) = nat_c (wConfig st'' (children col' ! i)))) \<and>
      ((\<forall>c\<in>set (children col). 0 \<le> nat_c (wConfig st c)) \<longrightarrow>
         obj_w col' = Max ((\<lambda>c. nat_c (wConfig st c)) ` set (children col))))"
  apply (rule conjI)
  subgoal
    using Row_placement(1,6)[of r st st' r'] Row_completeLocalLayout_child_refs[of r st st' r']
      Row_children_natural_after[of r st st' r'] Row_shrinkwrap[of r st st' r']
    by (intro conjI impI; elim conjE; simp)
  subgoal
    using Column_placement(1,6)[of col st st'' col']
      Column_completeLocalLayout_child_refs[of col st st'' col']
      Column_children_natural_after[of col st st'' col'] Column_shrinkwrap[of col st st'' col']
    by (intro conjI impI; elim conjE; simp)
  done

text \<open>
  The row with a strut, a spring and a strut of natural heights 7, 0 and 5 becomes 7 high; the
  column with boxes of natural widths 3 and 6 becomes 6 wide.
\<close>

theorem completeLocalLayout_cross_sizes_witness:
  "children spring_row \<noteq> [] \<and>
   list_all (\<lambda>c. obj_hConfig c \<noteq> obj_hConfig spring_row) (children spring_row) \<and>
   list_all (\<lambda>c. 0 \<le> nat_c (hConfig example_store c)) (children spring_row) \<and>
   map obj_h (children (snd (Row_completeLocalLayout (example_store, spring_row)))) = [7, 0, 5] \<and>
   obj_h (snd (Row_completeLocalLayout (example_store, spring_row))) = 7 \<and>
   children tight_column \<noteq> [] \<and>
   list_all (\<lambda>c. obj_wConfig c \<noteq> obj_wConfig tight_column) (children tight_column) \<and>
   list_all (\<lambda>c. 0 \<le> nat_c (wConfig example_store c)) (children tight_column) \<and>
   map obj_w (children (snd (Column_completeLocalLayout (example_store, tight_column)))) = [3, 6] \<and>
   obj_w (snd (Column_completeLocalLayout (example_store, tight_column))) = 6"
  using completeLocalLayout_cross_sizes[where st = example_store and r = spring_row
      and st' = "fst (Row_completeLocalLayout (example_store, spring_row))"
      and r' = "snd (Row_completeLocalLayout (example_store, spring_row))"
      and col = tight_column
      and st'' = "fst (Column_completeLocalLayout (example_store, tight_column))"
      and col' = "snd (Column_completeLocalLayout (example_store, tight_column))"]
  by (simp add: example_defs Row_completeLocalLayout_def Column_completeLocalLayout_def
        Row_measureChildren_def Column_measureChildren_def
        Row_adjustChildren_def Column_adjustChildren_def
        Row_expandChildSprings_def Column_expandChildSprings_def
        Row_compressChildren_def Column_compressChildren_def Let_def)

text \<open>
  Claim C7.  When the excess is negative and \<open>availCompr = 0\<close>, \<^verbatim>\<open>_adjustChildren\<close>
  returns the container with the primary-axis size of every spring set to 0 and with every
  other child, and everything else, unchanged.  The source has no \<^verbatim>\<open>throw\<close> on this path
  (nor on any other), so the embedding has no error result: the method returns this state.
\<close>

theorem adjustChildren_stuck_zeroes_springs:
  "(Row_measureChildren st r = (natSum, availCompr, numSprings) \<and> obj_w r - natSum < 0 \<and>
    availCompr = 0 \<longrightarrow>
      Row_adjustChildren st r =
        r\<lparr>children :=
            map (\<lambda>child. if obj_isSpring child then child\<lparr>obj_w := 0\<rparr> else child) (children r)\<rparr> \<and>
      length (children (Row_adjustChildren st r)) = length (children r) \<and>
      (\<forall>i < length (children r).
         (obj_isSpring (children r ! i) \<longrightarrow>
            children (Row_adjustChildren st r) ! i = (children r ! i)\<lparr>obj_w := 0\<rparr>) \<and>
         (\<not> obj_isSpring (children r ! i) \<longrightarrow>
            children (Row_adjustChildren st r) ! i = children r ! i))) \<and>
   (Column_measureChildren st col = (natSum, availCompr, numSprings) \<and> obj_h col - natSum < 0 \<and>
    availCompr = 0 \<longrightarrow>
      Column_adjustChildren st col =
        col\<lparr>children :=
            map (\<lambda>child. if obj_isSpring child then child\<lparr>obj_h := 0\<rparr> else child) (children col)\<rparr> \<and>
      length (children (Column_adjustChildren st col)) = length (children col) \<and>
      (\<forall>i < length (children col).
         (obj_isSpring (children col ! i) \<longrightarrow>
            children (Column_adjustChildren st col) ! i = (children col ! i)\<lparr>obj_h := 0\<rparr>) \<and>
         (\<not> obj_isSpring (children col ! i) \<longrightarrow>
            children (Column_adjustChildren st col) ! i = children col ! i)))"
  using Row_adjust_stuck[of st r natSum availCompr numSprings]
    Row_adjust_zeroes[of st r natSum availCompr numSprings]
    Column_adjust_stuck[of st col natSum availCompr numSprings]
    Column_adjust_zeroes[of st col natSum availCompr numSprings]
  by (intro conjI impI; elim conjE; simp)

text \<open>
  The strut, spring, strut layout squeezed into 30: the struts cannot be compressed, the
  spring goes from 33 to 0, and the struts keep their 20.
\<close>

theorem adjustChildren_stuck_zeroes_springs_witness:
  "Row_measureChildren example_store stuck_row = (40, 0, 1) \<and>
   obj_w stuck_row - 40 < 0 \<and>
   map obj_w (children stuck_row) = [20, 33, 20] \<and>
   map obj_w (children (Row_adjustChildren example_store stuck_row)) = [20, 0, 20] \<and>
   Column_measureChildren example_store stuck_column = (40, 0, 1) \<and>
   obj_h stuck_column - 40 < 0 \<and>
   map obj_h (children stuck_column) = [20, 33, 20] \<and>
   map obj_h (children (Column_adjustChildren example_store stuck_column)) = [20, 0, 20]"
  using adjustChildren_stuck_zeroes_springs[where st = example_store and r = stuck_row
      and natSum = 40 and availCompr = 0 and numSprings = 1 and col = stuck_column]
  by (simp add: example_defs Row_measureChildren_def Column_measureChildren_def
        Row_adjustChildren_def Column_adjustChildren_def)



text \<open>
  Claim C9, for a container none of whose children is itself a Row or a Column.  A layout
  cycle is \<^verbatim>\<open>_doLocalSizing\<close> followed by \<^verbatim>\<open>_completeLocalLayout\<close>.  With the children and
  the primary-axis size of the container left alone in between, a second cycle yields what
  the first one yielded: the same positions and sizes of the container and of every child,
  and the same values of all their size configurations.  This holds for every rounding \<open>rd\<close>
  of the arithmetic, so in exact as in double arithmetic.  The size configurations of the
  children are objects of the store (\<open>n_allocated\<close>), so that the objects a cycle constructs
  are new.
\<close>

theorem layout_pass_idempotent:
  "(n_allocated st (nchildren r) \<and> plain_children (nchildren r) \<longrightarrow>
      NRow_observe (NRow_layout_pass rd (NRow_layout_pass rd (st, r))) =
        NRow_observe (NRow_layout_pass rd (st, r))) \<and>
   (n_allocated st (nchildren col) \<and> plain_children (nchildren col) \<longrightarrow>
      NColumn_observe (NColumn_layout_pass rd (NColumn_layout_pass rd (st, col))) =
        NColumn_observe (NColumn_layout_pass rd (st, col)))"
  apply (rule conjI)
  subgoal by (rule impI, elim conjE, rule NRow_pass_idem)
  subgoal by (rule impI, elim conjE, rule NColumn_pass_idem)
  done

text \<open>
  The row of width 12 with two boxes of the width configuration (8, 4, 8), in double
  arithmetic: the first cycle gives the row the height 5 and the configurations (16, 8, 16)
  and (5, 5, 5), the boxes the width 6 at 0 and 6; the second cycle gives the same.  The
  column of the same boxes likewise.
\<close>

theorem layout_pass_idempotent_witness:
  "n_allocated nested_store (nchildren boxes_row) \<and> plain_children (nchildren boxes_row) \<and>
   NRow_observe (NRow_layout_pass double (nested_store, boxes_row)) =
     ((False, 0, 0, 12, 5, \<lparr>nat_c = 16, min_c = 8, max_c = 16\<rparr>, \<lparr>nat_c = 5, min_c = 5, max_c = 5\<rparr>),
      ''top'',
      [(False, 0, 0, 6, 3, \<lparr>nat_c = 8, min_c = 4, max_c = 8\<rparr>, \<lparr>nat_c = 3, min_c = 3, max_c = 3\<rparr>),
       (False, 6, 0, 6, 5, \<lparr>nat_c = 8, min_c = 4, max_c = 8\<rparr>, \<lparr>nat_c = 5, min_c = 5, max_c = 5\<rparr>)]) \<and>
   NRow_observe (NRow_layout_pass double (NRow_layout_pass double (nested_store, boxes_row))) =
     NRow_observe (NRow_layout_pass double (nested_store, boxes_row)) \<and>
   n_allocated nested_store (nchildren boxes_column) \<and>
   plain_children (nchildren boxes_column) \<and>
   NColumn_observe
       (NColumn_layout_pass double (NColumn_layout_pass double (nested_store, boxes_column))) =
     NColumn_observe (NColumn_layout_pass double (nested_store, boxes_column))"
proof -
  have a: "n_allocated nested_store (nchildren boxes_row)" "plain_children (nchildren boxes_row)"
    "n_allocated nested_store (nchildren boxes_column)" "plain_children (nchildren boxes_column)"
    by (simp_all add: n_allocated_def plain_children_def nested_store_def boxes_row_def
          boxes_column_def)
  have v: "NRow_observe (NRow_layout_pass double (nested_store, boxes_row)) =
     ((False, 0, 0, 12, 5, \<lparr>nat_c = 16, min_c = 8, max_c = 16\<rparr>, \<lparr>nat_c = 5, min_c = 5, max_c = 5\<rparr>),
      ''top'',
      [(False, 0, 0, 6, 3, \<lparr>nat_c = 8, min_c = 4, max_c = 8\<rparr>, \<lparr>nat_c = 3, min_c = 3, max_c = 3\<rparr>),
       (False, 6, 0, 6, 5, \<lparr>nat_c = 8, min_c = 4, max_c = 8\<rparr>, \<lparr>nat_c = 5, min_c = 5, max_c = 5\<rparr>)])"
    by (simp add: NRow_eval nested_store_def boxes_row_def double_small)
  from a v layout_pass_idempotent[where rd = double and st = nested_store and r = boxes_row
      and col = boxes_column]
  show ?thesis by (simp only: simp_thms)
qed

text \<open>
  With children that are rows the claim fails.  The row of width 12 whose two children are
  rows of the width configuration (8, 4, 8): the first cycle sums the configurations of the
  children to (16, 8, 16) and compresses both children to the width 6; the setter of a row
  (Row.js, lines 50 to 58) then replaces the configuration of each child by the fixed one
  (6, 6, 6).  The second cycle sums these and gives the row the width configuration
  (12, 12, 12).  All numbers are small integers, on which double and exact arithmetic agree.
\<close>

theorem layout_pass_nested_counterexample:
  "n_allocated nested_store (nchildren nested_row) \<and>
   NRow_observe (NRow_layout_pass double (nested_store, nested_row)) =
     ((False, 0, 0, 12, 5, \<lparr>nat_c = 16, min_c = 8, max_c = 16\<rparr>, \<lparr>nat_c = 5, min_c = 5, max_c = 5\<rparr>),
      ''top'',
      [(False, 0, 0, 6, 3, \<lparr>nat_c = 6, min_c = 6, max_c = 6\<rparr>, \<lparr>nat_c = 3, min_c = 3, max_c = 3\<rparr>),
       (False, 6, 0, 6, 5, \<lparr>nat_c = 6, min_c = 6, max_c = 6\<rparr>, \<lparr>nat_c = 5, min_c = 5, max_c = 5\<rparr>)]) \<and>
   NRow_observe (NRow_layout_pass double (NRow_layout_pass double (nested_store, nested_row))) =
     ((False, 0, 0, 12, 5, \<lparr>nat_c = 12, min_c = 12, max_c = 12\<rparr>, \<lparr>nat_c = 5, min_c = 5, max_c = 5\<rparr>),
      ''top'',
      [(False, 0, 0, 6, 3, \<lparr>nat_c = 6, min_c = 6, max_c = 6\<rparr>, \<lparr>nat_c = 3, min_c = 3, max_c = 3\<rparr>),
       (False, 6, 0, 6, 5, \<lparr>nat_c = 6, min_c = 6, max_c = 6\<rparr>, \<lparr>nat_c = 5, min_c = 5, max_c = 5\<rparr>)]) \<and>
   NRow_observe (NRow_layout_pass double (NRow_layout_pass double (nested_store, nested_row))) \<noteq>
     NRow_observe (NRow_layout_pass double (nested_store, nested_row)) \<and>
   NRow_observe
       (NRow_layout_pass (\<lambda>x. x) (NRow_layout_pass (\<lambda>x. x) (nested_store, nested_row))) \<noteq>
     NRow_observe (NRow_layout_pass (\<lambda>x. x) (nested_store, nested_row))"
  by (simp add: NRow_eval nested_store_def nested_row_def double_small n_allocated_def)




end
